theory Spec2Isabelle
  imports Main "HOL-Library.Word"
begin

section \<open>Vulkan-level data\<close>

text \<open>
  The development embeds \<^verbatim>\<open>src/vsg/viewer/RecordAndSubmitTask.cpp\<close>. Objects of the engine
  are records; a reference-counted pointer that the source tests before use is an
  \<open>option\<close>; Vulkan handles and object identities are natural numbers. An operation of the
  source that is undefined in C++ (writing a vector out of range, calling or copying through
  a null pointer that the source itself can produce) makes the embedded function return
  \<open>None\<close>.
  Calls that leave the program (mapping memory, \<^verbatim>\<open>memcpy\<close> into the mapped staging memory,
  queue submission, waiting, sleeping) are returned as a list of events in call order.
  The debug \<^verbatim>\<open>log\<close> calls are left out.

  A pointer that the source calls through without a test and never sets to null itself (the
  device, the data of a \<^verbatim>\<open>BufferInfo\<close>, the image-available semaphore of a window frame) is
  taken to refer to an object. Offsets and sizes in bytes are 64-bit words and wrap as
  \<^verbatim>\<open>VkDeviceSize\<close> does. Slot indices and region counts are natural numbers: the source keeps
  \<^verbatim>\<open>_currentFrameIndex\<close> at or below the number of buffers, and it counts regions up to the
  number of registered entries only.
\<close>

type_synonym VkResult = int

abbreviation VK_SUCCESS :: VkResult where
  "VK_SUCCESS \<equiv> 0"

type_synonym VkDeviceSize = "64 word"

type_synonym VkPipelineStageFlags = "32 word"

definition VK_PIPELINE_STAGE_TRANSFER_BIT :: VkPipelineStageFlags where
  "VK_PIPELINE_STAGE_TRANSFER_BIT = 0x1000"

datatype VkCommandBufferLevel = VK_COMMAND_BUFFER_LEVEL_PRIMARY | VK_COMMAND_BUFFER_LEVEL_SECONDARY

record VkBufferCopy =
  srcOffset :: VkDeviceSize
  dstOffset :: VkDeviceSize
  copySize :: VkDeviceSize

record VkSubmitInfo =
  pWaitSemaphores :: "nat list"
  pWaitDstStageMask :: "VkPipelineStageFlags list"
  pCommandBuffers :: "nat list"
  pSignalSemaphores :: "nat list"

section \<open>Engine objects\<close>

record Semaphore =
  semaphore_vk :: nat
  pipelineStageFlags :: VkPipelineStageFlags

record CommandBuffer =
  commandBuffer_vk :: nat
  level :: VkCommandBufferLevel

text \<open>
  Modelled from the spec: the fence with dependencies (\<^verbatim>\<open>vsg/vk/Fence.h\<close> is not among the
  sources): a GPU fence plus the host-side lists of command buffers and semaphores that are
  kept alive until it signals.
\<close>

record Fence =
  dependentCommandBuffers :: "CommandBuffer list"
  dependentSemaphores :: "Semaphore list"

record Buffer =
  buffer_vk :: nat
  buffer_size :: VkDeviceSize

text \<open>
  \<open>Data\<close> carries the modification counter of the data object and the address its bytes
  are read from. A \<open>BufferInfo\<close> is kept by value in the registry: \<open>copiedModifiedCount\<close> is
  its \<^verbatim>\<open>copiedModifiedCounts[deviceID]\<close> for the device of the task, and \<open>referenceCount\<close> is
  what \<^verbatim>\<open>referenceCount()\<close> reports when the transfer examines the entry; it counts the
  reference held by the registry, so the value 1 means that no external owner is left.
\<close>

record Data =
  modifiedCount :: nat
  dataPointer :: nat

record BufferInfo =
  buffer :: nat
  offset :: VkDeviceSize
  range_size :: VkDeviceSize
  data :: Data
  copiedModifiedCount :: nat
  referenceCount :: nat

text \<open>One \<^verbatim>\<open>vkCmdCopyBuffer\<close> call recorded into the transfer command buffer of a frame.\<close>

record CopyCommand =
  cmd_srcBuffer :: nat
  cmd_dstBuffer :: nat
  cmd_regions :: "VkBufferCopy list"

record TransferCommandBuffer =
  transfer_vk :: nat
  recorded :: "CopyCommand list"

record Frame =
  frame_fence :: Fence
  staging :: "Buffer option"
  transferCommandBuffer :: "TransferCommandBuffer option"
  transferCompledSemaphore :: "Semaphore option"
  copyRegions :: "VkBufferCopy list"
  buffer_data :: "nat option"

text \<open>
  Modelled from the spec: the window collaborator (\<^verbatim>\<open>vsg/viewer/Window.h\<close> is not among the
  sources) exposes the currently acquired image index, its frame count and an
  image-available semaphore for each image slot.
\<close>

record WindowFrame =
  imageAvailableSemaphore :: Semaphore

record Window =
  imageIndex :: nat
  window_frames :: "WindowFrame list"

definition numFrames :: "Window \<Rightarrow> nat" where
  "numFrames w = length (window_frames w)"

record CommandGraph =
  maxSlot :: nat

text \<open>
  The task. \<open>dynamicDataMap\<close> is the \<^verbatim>\<open>std::map\<close> from destination buffer to the
  \<^verbatim>\<open>std::map\<close> from destination offset to \<open>BufferInfo\<close>, each kept as an association list in
  key order, which is the order the source iterates in. \<open>queue\<close>, \<open>transferQueue\<close> and
  \<open>databasePager\<close> are null after construction.
\<close>

record RecordAndSubmitTask =
  currentFrameIndex :: nat
  indices :: "nat list"
  frames :: "Frame list"
  dynamicDataMap :: "(nat \<times> (VkDeviceSize \<times> BufferInfo) list) list"
  dynamicDataTotalRegions :: nat
  dynamicDataTotalSize :: VkDeviceSize
  currentTransferCompletedSemaphore :: "Semaphore option"
  windows :: "Window list"
  waitSemaphores :: "Semaphore list"
  signalSemaphores :: "Semaphore list"
  commandGraphs :: "CommandGraph list"
  queue :: "nat option"
  transferQueue :: "nat option"
  databasePager :: "nat option"

text \<open>
  The calls that leave the program: \<open>MapMemory size result\<close>; \<open>Memcpy buffer_data offset source
  length\<close>, the copy of \<open>length\<close> bytes from address \<open>source\<close> to the mapped staging memory at
  \<open>offset\<close>; \<open>QueueSubmit queue info fence result\<close>, with the slot of the guarding fence;
  \<open>FenceWait slot timeout result\<close>; and \<open>SleepFor milliseconds\<close>.
\<close>

datatype event =
    is_MapMemory: MapMemory VkDeviceSize VkResult
  | is_Memcpy: Memcpy "nat option" VkDeviceSize nat VkDeviceSize
  | is_QueueSubmit: QueueSubmit nat VkSubmitInfo "nat option" VkResult
  | is_FenceWait: FenceWait nat nat VkResult
  | is_SleepFor: SleepFor nat

section \<open>Construction and the frame index sequencer\<close>

definition new_Frame :: Frame where
  "new_Frame = \<lparr>frame_fence = \<lparr>dependentCommandBuffers = [], dependentSemaphores = []\<rparr>,
     staging = None, transferCommandBuffer = None, transferCompledSemaphore = None,
     copyRegions = [], buffer_data = None\<rparr>"

text \<open>The constructor, lines 22 to 36: \<open>numBuffers\<close> is the value that signifies "unset".\<close>

definition RecordAndSubmitTask_create :: "nat \<Rightarrow> RecordAndSubmitTask" where
  "RecordAndSubmitTask_create numBuffers =
     \<lparr>currentFrameIndex = numBuffers,
      indices = replicate numBuffers numBuffers,
      frames = replicate numBuffers new_Frame,
      dynamicDataMap = [],
      dynamicDataTotalRegions = 0,
      dynamicDataTotalSize = 0,
      currentTransferCompletedSemaphore = None,
      windows = [],
      waitSemaphores = [],
      signalSemaphores = [],
      commandGraphs = [],
      queue = None,
      transferQueue = None,
      databasePager = None\<rparr>"

text \<open>
  The loop of lines 51 to 54, \<^verbatim>\<open>for (i = size - 1; i >= 1; --i) _indices[i] = _indices[i - 1]\<close>,
  as a recursion on \<open>i\<close>.
\<close>

fun shift_indices :: "nat \<Rightarrow> nat list \<Rightarrow> nat list" where
  "shift_indices 0 xs = xs"
| "shift_indices (Suc i) xs = shift_indices i (xs[Suc i := xs ! i])"

text \<open>
  \<^verbatim>\<open>advance\<close>, lines 38 to 59. With an empty \<open>indices\<close> the first branch is taken and the
  final write to \<^verbatim>\<open>_indices[0]\<close> is out of range: \<open>None\<close>. In the second branch
  \<open>currentFrameIndex < size\<close>, so \<open>size - 1\<close> does not wrap.
\<close>

definition advance :: "RecordAndSubmitTask \<Rightarrow> RecordAndSubmitTask option" where
  "advance s =
     (let n = length (indices s) in
      if currentFrameIndex s \<ge> n then
        (if n = 0 then None
         else Some (s\<lparr>currentFrameIndex := 0, indices := (indices s)[0 := 0]\<rparr>))
      else
        (let c = currentFrameIndex s + 1;
             c' = (if c > n - 1 then 0 else c);
             shifted = shift_indices (n - 1) (indices s)
         in Some (s\<lparr>currentFrameIndex := c', indices := shifted[0 := c']\<rparr>)))"

text \<open>\<open>k\<close> successive calls of \<^verbatim>\<open>advance\<close>.\<close>

fun advance_calls :: "nat \<Rightarrow> RecordAndSubmitTask \<Rightarrow> RecordAndSubmitTask option" where
  "advance_calls 0 s = Some s"
| "advance_calls (Suc k) s =
     (case advance_calls k s of None \<Rightarrow> None | Some s' \<Rightarrow> advance s')"

text \<open>\<^verbatim>\<open>index\<close>, lines 61 to 64.\<close>

definition index :: "RecordAndSubmitTask \<Rightarrow> nat \<Rightarrow> nat" where
  "index s relativeFrameIndex =
     (if relativeFrameIndex < length (indices s) then indices s ! relativeFrameIndex
      else length (indices s))"

text \<open>\<^verbatim>\<open>fence\<close>, lines 67 to 71: the null pointer is \<open>None\<close>.\<close>

definition fence :: "RecordAndSubmitTask \<Rightarrow> nat \<Rightarrow> Fence option" where
  "fence s relativeFrameIndex =
     (let i = index s relativeFrameIndex in
      if i < length (frames s) then Some (frame_fence (frames s ! i)) else None)"

subsection \<open>Closed form of the ring\<close>

text \<open>
  The state reached from a new task with \<open>N\<close> buffers by \<open>k\<close> calls of \<^verbatim>\<open>advance\<close>, in closed
  form: entry \<open>j\<close> of the ring is the slot of the call \<open>k - j\<close>, or the unset value \<open>N\<close>.
\<close>

definition ring_indices :: "nat \<Rightarrow> nat \<Rightarrow> nat list" where
  "ring_indices N k = map (\<lambda>j. if j < k then (k - 1 - j) mod N else N) [0..<N]"

definition ring_state :: "nat \<Rightarrow> nat \<Rightarrow> RecordAndSubmitTask" where
  "ring_state N k = (RecordAndSubmitTask_create N)
     \<lparr>currentFrameIndex := (if k = 0 then N else (k - 1) mod N), indices := ring_indices N k\<rparr>"

section \<open>The phases of a frame\<close>

text \<open>
  Modelled from the spec: \<^verbatim>\<open>hasDependencies\<close> and \<^verbatim>\<open>resetFenceAndDependencies\<close> of the fence
  (\<^verbatim>\<open>vsg/vk/Fence.h\<close> is not among the sources): a fence has dependencies when one of its two
  lists is not empty, and the reset clears the dependency lists.
\<close>

definition hasDependencies :: "Fence \<Rightarrow> bool" where
  "hasDependencies f = (dependentCommandBuffers f \<noteq> [] \<or> dependentSemaphores f \<noteq> [])"

definition resetFenceAndDependencies :: "Fence \<Rightarrow> Fence" where
  "resetFenceAndDependencies f = f\<lparr>dependentCommandBuffers := [], dependentSemaphores := []\<rparr>"

text \<open>Writing through the pointer that \<^verbatim>\<open>fence()\<close> returned for slot \<open>i\<close>.\<close>

definition set_fence :: "RecordAndSubmitTask \<Rightarrow> nat \<Rightarrow> Fence \<Rightarrow> RecordAndSubmitTask" where
  "set_fence s i f = s\<lparr>frames := (frames s)[i := (frames s ! i)\<lparr>frame_fence := f\<rparr>]\<rparr>"

text \<open>
  \<^verbatim>\<open>start\<close>, lines 81 to 94. \<open>wait_result\<close> is what the wait on the fence returns. With no
  current slot \<^verbatim>\<open>fence()\<close> is null and the call through it is undefined.
\<close>

definition start :: "VkResult \<Rightarrow> RecordAndSubmitTask \<Rightarrow> (VkResult \<times> RecordAndSubmitTask \<times> event list) option" where
  "start wait_result s =
     (let s1 = s\<lparr>currentTransferCompletedSemaphore := None\<rparr> in
      case fence s1 0 of
        None \<Rightarrow> None
      | Some current_fence \<Rightarrow>
          if hasDependencies current_fence then
            (let timeout = 2 ^ 64 - 1;
                 waited = [FenceWait (index s1 0) timeout wait_result]
             in if wait_result \<noteq> VK_SUCCESS then Some (wait_result, s1, waited)
                else Some (VK_SUCCESS,
                       set_fence s1 (index s1 0) (resetFenceAndDependencies current_fence), waited))
          else Some (VK_SUCCESS, s1, []))"

text \<open>
  The loops of \<^verbatim>\<open>finish\<close>, each with the vectors it appends to as accumulator: lines 306 to
  311 (handles of the primary command buffers; every command buffer becomes a dependency of
  the fence), lines 321 to 330 (windows), lines 332 to 336 (wait semaphores) and lines 338
  to 341 (signal semaphores).
\<close>

fun record_dependencies :: "CommandBuffer list \<Rightarrow> nat list \<times> CommandBuffer list \<Rightarrow> nat list \<times> CommandBuffer list" where
  "record_dependencies [] acc = acc"
| "record_dependencies (commandBuffer # rest) (vk_commandBuffers, dependent) =
     record_dependencies rest
       (if level commandBuffer = VK_COMMAND_BUFFER_LEVEL_PRIMARY
        then vk_commandBuffers @ [commandBuffer_vk commandBuffer] else vk_commandBuffers,
        dependent @ [commandBuffer])"

fun wait_on_windows :: "Window list \<Rightarrow> nat list \<times> VkPipelineStageFlags list \<Rightarrow> nat list \<times> VkPipelineStageFlags list" where
  "wait_on_windows [] acc = acc"
| "wait_on_windows (window # rest) (vk_waitSemaphores, vk_waitStages) =
     (if imageIndex window \<ge> numFrames window
      then wait_on_windows rest (vk_waitSemaphores, vk_waitStages)
      else
        (let semaphore = imageAvailableSemaphore (window_frames window ! imageIndex window)
         in wait_on_windows rest
              (vk_waitSemaphores @ [semaphore_vk semaphore],
               vk_waitStages @ [pipelineStageFlags semaphore])))"

fun wait_on_semaphores :: "Semaphore list \<Rightarrow> nat list \<times> VkPipelineStageFlags list \<Rightarrow> nat list \<times> VkPipelineStageFlags list" where
  "wait_on_semaphores [] acc = acc"
| "wait_on_semaphores (semaphore # rest) (vk_waitSemaphores, vk_waitStages) =
     wait_on_semaphores rest
       (vk_waitSemaphores @ [semaphore_vk semaphore],
        vk_waitStages @ [pipelineStageFlags semaphore])"

fun signal_handles :: "Semaphore list \<Rightarrow> nat list \<Rightarrow> nat list" where
  "signal_handles [] vk_signalSemaphores = vk_signalSemaphores"
| "signal_handles (semaphore # rest) vk_signalSemaphores =
     signal_handles rest (vk_signalSemaphores @ [semaphore_vk semaphore])"

text \<open>
  \<^verbatim>\<open>finish\<close>, lines 288 to 357. \<open>submit_result\<close> is what the queue returns for the submission.
  The sleep of 16 milliseconds is the event \<open>SleepFor 16\<close>. The counts of the submit info are
  the lengths of its lists. With recorded command buffers, a null \<^verbatim>\<open>fence()\<close> or a null
  \<^verbatim>\<open>queue\<close> is called through: \<open>None\<close>.
\<close>

definition finish :: "VkResult \<Rightarrow> RecordAndSubmitTask \<Rightarrow> CommandBuffer list \<Rightarrow> (VkResult \<times> RecordAndSubmitTask \<times> event list) option" where
  "finish submit_result s recordedCommandBuffers =
     (if recordedCommandBuffers = [] then Some (VK_SUCCESS, s, [SleepFor 16])
      else
        case fence s 0 of
          None \<Rightarrow> None
        | Some current_fence \<Rightarrow>
            (let (vk_commandBuffers, dependent) =
                   record_dependencies recordedCommandBuffers
                     ([], dependentCommandBuffers current_fence);
                 fence' = current_fence\<lparr>dependentCommandBuffers := dependent,
                            dependentSemaphores := signalSemaphores s\<rparr>;
                 s' = set_fence s (index s 0) fence';
                 transfer_wait =
                   (case currentTransferCompletedSemaphore s of
                      None \<Rightarrow> ([], [])
                    | Some semaphore \<Rightarrow> ([semaphore_vk semaphore], [pipelineStageFlags semaphore]));
                 (vk_waitSemaphores, vk_waitStages) =
                   wait_on_semaphores (waitSemaphores s) (wait_on_windows (windows s) transfer_wait);
                 vk_signalSemaphores = signal_handles (signalSemaphores s) [];
                 submitInfo = \<lparr>pWaitSemaphores = vk_waitSemaphores,
                                pWaitDstStageMask = vk_waitStages,
                                pCommandBuffers = vk_commandBuffers,
                                pSignalSemaphores = vk_signalSemaphores\<rparr>
             in case queue s of
                  None \<Rightarrow> None
                | Some q \<Rightarrow>
                    Some (submit_result, s',
                      [QueueSubmit q submitInfo (Some (index s 0)) submit_result])))"

section \<open>The dynamic data registry\<close>

text \<open>
  \<^verbatim>\<open>m[k] = v\<close> on a \<^verbatim>\<open>std::map\<close> kept as an association list in key order: the value of an
  existing key is overwritten, a new key is inserted at its place in the order.
\<close>

fun map_assign :: "'k::linorder \<Rightarrow> 'v \<Rightarrow> ('k \<times> 'v) list \<Rightarrow> ('k \<times> 'v) list" where
  "map_assign k v [] = [(k, v)]"
| "map_assign k v ((k', v') # m) =
     (if k < k' then (k, v) # (k', v') # m
      else if k = k' then (k, v) # m
      else (k', v') # map_assign k v m)"

text \<open>
  Lines 110 to 113: \<^verbatim>\<open>_dynamicDataMap[bufferInfo->buffer][bufferInfo->offset] = bufferInfo\<close> for
  each element of the list; a buffer that is not yet a key starts with no entries.
\<close>

fun assign_bufferInfos :: "BufferInfo list \<Rightarrow> (nat \<times> (VkDeviceSize \<times> BufferInfo) list) list \<Rightarrow> (nat \<times> (VkDeviceSize \<times> BufferInfo) list) list" where
  "assign_bufferInfos [] m = m"
| "assign_bufferInfos (bufferInfo # rest) m =
     assign_bufferInfos rest
       (map_assign (buffer bufferInfo)
          (map_assign (offset bufferInfo) bufferInfo
             (case map_of m (buffer bufferInfo) of None \<Rightarrow> [] | Some bufferInfos \<Rightarrow> bufferInfos))
          m)"

text \<open>
  Lines 126 and 229: the offset after an entry that ends at \<open>endOfEntry\<close>, in 64-bit
  unsigned arithmetic.
\<close>

definition next_offset :: "VkDeviceSize \<Rightarrow> VkDeviceSize \<Rightarrow> VkDeviceSize" where
  "next_offset alignment endOfEntry =
     (if alignment = 1 \<or> endOfEntry mod alignment = 0 then endOfEntry
      else (endOfEntry div alignment + 1) * alignment)"

text \<open>
  Lines 116 to 130: the two nested loops that compute the total size and the number of
  regions, with \<open>(offset, _dynamicDataTotalRegions)\<close> as accumulator and the alignment 4.
\<close>

fun total_bufferInfos :: "(VkDeviceSize \<times> BufferInfo) list \<Rightarrow> VkDeviceSize \<times> nat \<Rightarrow> VkDeviceSize \<times> nat" where
  "total_bufferInfos [] acc = acc"
| "total_bufferInfos ((k, bufferInfo) # rest) (offs, regions) =
     total_bufferInfos rest (next_offset 4 (offs + range_size bufferInfo), regions + 1)"

fun total_buffers :: "(nat \<times> (VkDeviceSize \<times> BufferInfo) list) list \<Rightarrow> VkDeviceSize \<times> nat \<Rightarrow> VkDeviceSize \<times> nat" where
  "total_buffers [] acc = acc"
| "total_buffers ((b, bufferInfos) # rest) acc = total_buffers rest (total_bufferInfos bufferInfos acc)"

text \<open>\<^verbatim>\<open>assignDynamicBufferInfos\<close>, lines 108 to 131.\<close>

definition assignDynamicBufferInfos :: "BufferInfo list \<Rightarrow> RecordAndSubmitTask \<Rightarrow> RecordAndSubmitTask" where
  "assignDynamicBufferInfos bufferInfoList s =
     (let m = assign_bufferInfos bufferInfoList (dynamicDataMap s);
          (offs, regions) = total_buffers m (0, 0)
      in s\<lparr>dynamicDataMap := m, dynamicDataTotalRegions := regions, dynamicDataTotalSize := offs\<rparr>)"

section \<open>The transfer of dynamic data\<close>

text \<open>
  Modelled from the spec: \<^verbatim>\<open>Data::getModifiedCount\<close> (\<^verbatim>\<open>vsg/core/Data.h\<close> is not among the
  sources). The data counts as modified since the last copy when its modification counter
  differs from the counter recorded at that copy; the call then records the current counter.
  It returns the answer and the recorded counter.
\<close>

definition getModifiedCount :: "Data \<Rightarrow> nat \<Rightarrow> bool \<times> nat" where
  "getModifiedCount d mc =
     (if modifiedCount d \<noteq> mc then (True, modifiedCount d) else (False, mc))"

text \<open>
  What the environment returns during one call of \<^verbatim>\<open>transferDynamicData\<close>: the handles of
  the objects it creates, the address and result code of the memory mapping, and the result
  code of the submission to the transfer queue.
\<close>

record TransferEnv =
  allocated_commandBuffer :: nat
  created_semaphore :: nat
  created_staging :: nat
  mapped_address :: nat
  map_result :: VkResult
  queue_result :: VkResult

text \<open>
  The locals that the loops of lines 201 to 253 update: \<open>offset\<close>, the vector \<open>copyRegions\<close>,
  \<open>pRegions\<close> as an index into it, the commands recorded into the command buffer and the
  \<^verbatim>\<open>memcpy\<close> calls made.
\<close>

record TransferLoop =
  tl_offset :: VkDeviceSize
  tl_copyRegions :: "VkBufferCopy list"
  tl_pRegions :: nat
  tl_commands :: "CopyCommand list"
  tl_events :: "event list"

text \<open>
  The inner loop, lines 207 to 233, over the entries of one buffer. It returns the entries
  that stay in the map, \<open>regionCount\<close> and the locals. The \<^verbatim>\<open>memcpy\<close> of line 221 writes through
  \<open>buffer_data\<close>, which is null in a frame that has never been mapped and after a mapping
  that failed (line 180): copying through it is undefined. Writing \<^verbatim>\<open>pRegions[regionCount]\<close>
  beyond the end of \<open>copyRegions\<close> is undefined as well.
\<close>

fun transfer_bufferInfos :: "nat option \<Rightarrow> (VkDeviceSize \<times> BufferInfo) list \<Rightarrow> nat \<Rightarrow> TransferLoop \<Rightarrow> ((VkDeviceSize \<times> BufferInfo) list \<times> nat \<times> TransferLoop) option" where
  "transfer_bufferInfos bd [] regionCount st = Some ([], regionCount, st)"
| "transfer_bufferInfos bd ((k, bufferInfo) # rest) regionCount st =
     (if referenceCount bufferInfo = 1 then transfer_bufferInfos bd rest regionCount st
      else
        (case getModifiedCount (data bufferInfo) (copiedModifiedCount bufferInfo) of
           (modified, copied) \<Rightarrow>
             if modified then
               (if bd = None then None
                else if tl_pRegions st + regionCount < length (tl_copyRegions st) then
                  map_option (\<lambda>(kept, r). ((k, bufferInfo\<lparr>copiedModifiedCount := copied\<rparr>) # kept, r))
                    (transfer_bufferInfos bd rest (regionCount + 1)
                       (st\<lparr>tl_events := tl_events st @
                              [Memcpy bd (tl_offset st) (dataPointer (data bufferInfo))
                                 (range_size bufferInfo)],
                            tl_copyRegions := (tl_copyRegions st)
                              [tl_pRegions st + regionCount :=
                                 \<lparr>srcOffset = tl_offset st, dstOffset = offset bufferInfo,
                                  copySize = range_size bufferInfo\<rparr>],
                            tl_offset := next_offset 4 (tl_offset st + range_size bufferInfo)\<rparr>))
                else None)
             else
               map_option (\<lambda>(kept, r). ((k, bufferInfo\<lparr>copiedModifiedCount := copied\<rparr>) # kept, r))
                 (transfer_bufferInfos bd rest regionCount st)))"

text \<open>
  The outer loop, lines 201 to 253, over the buffers: the regions of a buffer become one
  \<^verbatim>\<open>vkCmdCopyBuffer\<close> command, and a buffer left without entries is erased from the map.
\<close>

fun transfer_buffers :: "nat option \<Rightarrow> nat \<Rightarrow> (nat \<times> (VkDeviceSize \<times> BufferInfo) list) list \<Rightarrow> TransferLoop \<Rightarrow> ((nat \<times> (VkDeviceSize \<times> BufferInfo) list) list \<times> TransferLoop) option" where
  "transfer_buffers bd staging_vk [] st = Some ([], st)"
| "transfer_buffers bd staging_vk ((b, bufferInfos) # rest) st =
     (case transfer_bufferInfos bd bufferInfos 0 st of
        None \<Rightarrow> None
      | Some (kept, regionCount, st1) \<Rightarrow>
          map_option (\<lambda>(m, st3). (if kept = [] then m else (b, kept) # m, st3))
            (transfer_buffers bd staging_vk rest
               (if regionCount > 0 then
                  st1\<lparr>tl_commands := tl_commands st1 @
                         [\<lparr>cmd_srcBuffer = staging_vk, cmd_dstBuffer = b,
                           cmd_regions = take regionCount (drop (tl_pRegions st1) (tl_copyRegions st1))\<rparr>],
                       tl_pRegions := tl_pRegions st1 + regionCount\<rparr>
                else st1)))"

definition zero_region :: VkBufferCopy where
  "zero_region = \<lparr>srcOffset = 0, dstOffset = 0, copySize = 0\<rparr>"

text \<open>
  Lines 184 to 284, once the command buffer, the semaphore and the staging buffer of the
  frame exist: \<open>copyRegions\<close> is cleared and resized to the total number of regions, the loops
  run, and the command buffer is submitted to the transfer queue if a region was recorded.
  \<open>events\<close> are the calls made before.
\<close>

definition transfer_regions :: "TransferEnv \<Rightarrow> RecordAndSubmitTask \<Rightarrow> nat \<Rightarrow> Frame \<Rightarrow> TransferCommandBuffer \<Rightarrow> Semaphore \<Rightarrow> Buffer \<Rightarrow> event list \<Rightarrow> (VkResult \<times> RecordAndSubmitTask \<times> event list) option" where
  "transfer_regions env s frameIndex frame commandBuffer semaphore stagingBuffer events =
     (case transfer_buffers (buffer_data frame) (buffer_vk stagingBuffer) (dynamicDataMap s)
             \<lparr>tl_offset = 0,
              tl_copyRegions = replicate (dynamicDataTotalRegions s) zero_region,
              tl_pRegions = 0,
              tl_commands = recorded commandBuffer,
              tl_events = events\<rparr> of
        None \<Rightarrow> None
      | Some (m, st) \<Rightarrow>
          (let frame' = frame\<lparr>copyRegions := tl_copyRegions st,
                 transferCommandBuffer := Some (commandBuffer\<lparr>recorded := tl_commands st\<rparr>)\<rparr>;
               s' = s\<lparr>frames := (frames s)[frameIndex := frame'], dynamicDataMap := m\<rparr>
           in if tl_pRegions st \<noteq> 0 then
                (case transferQueue s of
                   None \<Rightarrow> None
                 | Some tq \<Rightarrow>
                     (let submitted = tl_events st @
                            [QueueSubmit tq
                               \<lparr>pWaitSemaphores = [], pWaitDstStageMask = [],
                                pCommandBuffers = [transfer_vk commandBuffer],
                                pSignalSemaphores = [semaphore_vk semaphore]\<rparr>
                               None (queue_result env)]
                      in if queue_result env \<noteq> VK_SUCCESS then Some (queue_result env, s', submitted)
                         else Some (VK_SUCCESS,
                                s'\<lparr>currentTransferCompletedSemaphore := Some semaphore\<rparr>, submitted)))
              else Some (VK_SUCCESS, s', tl_events st)))"

text \<open>
  Lines 173 to 182, when the frame has no staging buffer or one that is too small.
  Modelled from the spec: \<^verbatim>\<open>createBufferAndMemory\<close> and the mapping of the staging memory
  (\<^verbatim>\<open>vsg/vk/Buffer.h\<close> and \<^verbatim>\<open>vsg/vk/DeviceMemory.h\<close> are not among the sources): the new staging
  buffer has the total required size, and the mapping returns a result code and, on
  success, the mapped address.
\<close>

definition allocate_staging :: "TransferEnv \<Rightarrow> RecordAndSubmitTask \<Rightarrow> nat \<Rightarrow> Frame \<Rightarrow> TransferCommandBuffer \<Rightarrow> Semaphore \<Rightarrow> (VkResult \<times> RecordAndSubmitTask \<times> event list) option" where
  "allocate_staging env s frameIndex frame commandBuffer semaphore =
     (let stagingBuffer = \<lparr>buffer_vk = created_staging env, buffer_size = dynamicDataTotalSize s\<rparr>;
          mapped = [MapMemory (buffer_size stagingBuffer) (map_result env)];
          frame' = frame\<lparr>staging := Some stagingBuffer,
                     buffer_data := (if map_result env = VK_SUCCESS
                                     then Some (mapped_address env) else None)\<rparr>
      in if map_result env \<noteq> VK_SUCCESS
         then Some (map_result env, s\<lparr>frames := (frames s)[frameIndex := frame']\<rparr>, mapped)
         else transfer_regions env s frameIndex frame' commandBuffer semaphore stagingBuffer mapped)"

text \<open>
  \<^verbatim>\<open>transferDynamicData\<close>, lines 133 to 286. Allocating the command buffer calls through
  \<^verbatim>\<open>transferQueue\<close>, which is undefined when that pointer is null.
\<close>

definition transferDynamicData :: "TransferEnv \<Rightarrow> RecordAndSubmitTask \<Rightarrow> (VkResult \<times> RecordAndSubmitTask \<times> event list) option" where
  "transferDynamicData env s =
     (let frameIndex = index s 0 in
      if frameIndex < length (frames s) \<and> dynamicDataMap s \<noteq> [] then
        (let frame = frames s ! frameIndex in
         case (case transferCommandBuffer frame of
                 None \<Rightarrow>
                   (case transferQueue s of
                      None \<Rightarrow> None
                    | Some tq \<Rightarrow> Some \<lparr>transfer_vk = allocated_commandBuffer env, recorded = []\<rparr>)
               | Some cb \<Rightarrow> Some (cb\<lparr>recorded := []\<rparr>)) of
           None \<Rightarrow> None
         | Some commandBuffer \<Rightarrow>
             (let semaphore =
                    (case transferCompledSemaphore frame of
                       None \<Rightarrow> \<lparr>semaphore_vk = created_semaphore env,
                                 pipelineStageFlags = VK_PIPELINE_STAGE_TRANSFER_BIT\<rparr>
                     | Some sem \<Rightarrow> sem);
                  frame1 = frame\<lparr>transferCommandBuffer := Some commandBuffer,
                             transferCompledSemaphore := Some semaphore\<rparr>
              in case staging frame1 of
                   None \<Rightarrow> allocate_staging env s frameIndex frame1 commandBuffer semaphore
                 | Some stagingBuffer \<Rightarrow>
                     if buffer_size stagingBuffer < dynamicDataTotalSize s
                     then allocate_staging env s frameIndex frame1 commandBuffer semaphore
                     else transfer_regions env s frameIndex frame1 commandBuffer semaphore
                            stagingBuffer []))
      else Some (VK_SUCCESS, s, []))"

section \<open>The registry walk as the spec describes it\<close>

text \<open>
  The entries of one buffer that are copied, each with its offset in the staging buffer:
  those with an external owner whose data was modified since the last copy, packed from
  \<open>offs\<close> on with 4-byte alignment.
\<close>

fun staged_entries :: "(VkDeviceSize \<times> BufferInfo) list \<Rightarrow> VkDeviceSize \<Rightarrow> (VkDeviceSize \<times> BufferInfo) list" where
  "staged_entries [] offs = []"
| "staged_entries ((k, bufferInfo) # rest) offs =
     (if referenceCount bufferInfo \<noteq> 1
         \<and> modifiedCount (data bufferInfo) \<noteq> copiedModifiedCount bufferInfo
      then (offs, bufferInfo) # staged_entries rest (next_offset 4 (offs + range_size bufferInfo))
      else staged_entries rest offs)"

text \<open>The next free staging offset after a list of staged entries that started at \<open>offs\<close>.\<close>

definition end_offset :: "(VkDeviceSize \<times> BufferInfo) list \<Rightarrow> VkDeviceSize \<Rightarrow> VkDeviceSize" where
  "end_offset staged offs =
     (if staged = [] then offs
      else next_offset 4 (fst (last staged) + range_size (snd (last staged))))"

fun staged_registry :: "(nat \<times> (VkDeviceSize \<times> BufferInfo) list) list \<Rightarrow> VkDeviceSize \<Rightarrow> (VkDeviceSize \<times> BufferInfo) list" where
  "staged_registry [] offs = []"
| "staged_registry ((b, bufferInfos) # rest) offs =
     staged_entries bufferInfos offs
       @ staged_registry rest (end_offset (staged_entries bufferInfos offs) offs)"

text \<open>
  The entries that stay registered: those with an external owner, with the modification
  counter of their data recorded as copied; and the registry without the buffers that have
  no entry left.
\<close>

definition mark_copied :: "BufferInfo \<Rightarrow> BufferInfo" where
  "mark_copied bufferInfo = bufferInfo\<lparr>copiedModifiedCount := modifiedCount (data bufferInfo)\<rparr>"

definition live_entries :: "(VkDeviceSize \<times> BufferInfo) list \<Rightarrow> (VkDeviceSize \<times> BufferInfo) list" where
  "live_entries bufferInfos =
     map (\<lambda>(k, bufferInfo). (k, mark_copied bufferInfo))
       (filter (\<lambda>(k, bufferInfo). referenceCount bufferInfo \<noteq> 1) bufferInfos)"

fun pruned_registry :: "(nat \<times> (VkDeviceSize \<times> BufferInfo) list) list \<Rightarrow> (nat \<times> (VkDeviceSize \<times> BufferInfo) list) list" where
  "pruned_registry [] = []"
| "pruned_registry ((b, bufferInfos) # rest) =
     (if live_entries bufferInfos = [] then pruned_registry rest
      else (b, live_entries bufferInfos) # pruned_registry rest)"

definition copy_region :: "VkDeviceSize \<times> BufferInfo \<Rightarrow> VkBufferCopy" where
  "copy_region e = \<lparr>srcOffset = fst e, dstOffset = offset (snd e), copySize = range_size (snd e)\<rparr>"

definition copy_call :: "nat option \<Rightarrow> VkDeviceSize \<times> BufferInfo \<Rightarrow> event" where
  "copy_call bd e = Memcpy bd (fst e) (dataPointer (data (snd e))) (range_size (snd e))"

text \<open>
  The condition of line 173: the frame of the current slot has no staging buffer, or one
  smaller than the total required size.
\<close>

definition needs_staging :: "RecordAndSubmitTask \<Rightarrow> bool" where
  "needs_staging s =
     (case staging (frames s ! index s 0) of
        None \<Rightarrow> True
      | Some stagingBuffer \<Rightarrow> buffer_size stagingBuffer < dynamicDataTotalSize s)"

text \<open>
  The call reaches the walk over the registry: there is a current slot, the registry is not
  empty, and the staging memory, if it has to be allocated, is mapped with success.
\<close>

definition reaches_walk :: "TransferEnv \<Rightarrow> RecordAndSubmitTask \<Rightarrow> bool" where
  "reaches_walk env s =
     (index s 0 < length (frames s) \<and> dynamicDataMap s \<noteq> []
      \<and> (needs_staging s \<longrightarrow> map_result env = VK_SUCCESS))"

text \<open>
  A call that reaches the walk makes no undefined operation: the transfer queue exists if the
  command buffer of the frame has to be allocated or if an entry is staged; the staged
  entries fit into \<open>copyRegions\<close>; and if an entry is staged, the staging memory of the frame is
  mapped, by this call or before it.
\<close>

definition walk_defined :: "RecordAndSubmitTask \<Rightarrow> bool" where
  "walk_defined s =
     ((transferCommandBuffer (frames s ! index s 0) = None \<longrightarrow> transferQueue s \<noteq> None)
      \<and> length (staged_registry (dynamicDataMap s) 0) \<le> dynamicDataTotalRegions s
      \<and> (staged_registry (dynamicDataMap s) 0 \<noteq> [] \<longrightarrow>
            transferQueue s \<noteq> None
          \<and> (needs_staging s \<or> buffer_data (frames s ! index s 0) \<noteq> None)))"

text \<open>The capacity of the staging buffer of a frame; a frame without one has capacity 0.\<close>

definition staging_capacity :: "Frame \<Rightarrow> VkDeviceSize" where
  "staging_capacity frame = (case staging frame of None \<Rightarrow> 0 | Some b \<Rightarrow> buffer_size b)"

text \<open>
  A task on which a transfer has nothing to do: if there is a current slot and the registry
  is not empty, then no entry is staged, no entry is pruned, the staging buffer of the slot
  is large enough and its transfer command buffer exists.
\<close>

definition nothing_to_transfer :: "RecordAndSubmitTask \<Rightarrow> bool" where
  "nothing_to_transfer s =
     (index s 0 < length (frames s) \<and> dynamicDataMap s \<noteq> [] \<longrightarrow>
        staged_registry (dynamicDataMap s) 0 = []
      \<and> pruned_registry (dynamicDataMap s) = dynamicDataMap s
      \<and> \<not> needs_staging s
      \<and> transferCommandBuffer (frames s ! index s 0) \<noteq> None)"

section \<open>Reconciliation of the tasks after compilation\<close>

text \<open>
  Modelled from the spec: the paged-data loader (\<^verbatim>\<open>vsg/io/DatabasePager.h\<close> is not among the
  sources) is a handle to a background loader that is given a compile manager and started.
  The pagers live in a store, a list indexed by their reference; \<^verbatim>\<open>DatabasePager::create\<close>
  appends a pager that has no compile manager and is not started.
\<close>

record DatabasePager =
  compileManager :: "nat option"
  started :: bool

datatype SortOrder = ASCENDING | NO_SORT | DESCENDING

record Bin =
  binNumber :: int
  sortOrder :: SortOrder

record View =
  bins :: "Bin list"

text \<open>
  The result of a compilation: \<open>bin_indices\<close> is the \<^verbatim>\<open>std::set\<close> of bin numbers in ascending
  order, and \<open>compiled_views\<close> pairs each view, by reference, with its details.
\<close>

record BinDetails =
  bin_indices :: "int list"

record CompileResult =
  dynamicBufferInfos :: "BufferInfo list"
  compiled_maxSlot :: nat
  containsPagedLOD :: bool
  compiled_views :: "(nat \<times> BinDetails) list"

text \<open>
  What \<^verbatim>\<open>updateTasks\<close> reads and writes: the tasks of the vector, taken to be distinct objects,
  the store of pagers and the store of views.
\<close>

record Viewer =
  tasks :: "RecordAndSubmitTask list"
  pagers :: "DatabasePager list"
  views :: "nat \<Rightarrow> View"

text \<open>Lines 375 to 384: the maximum slot of every command graph of a task is raised.\<close>

definition raise_maxSlot :: "nat \<Rightarrow> RecordAndSubmitTask \<Rightarrow> RecordAndSubmitTask" where
  "raise_maxSlot slot task =
     task\<lparr>commandGraphs :=
       map (\<lambda>commandGraph.
              if slot > maxSlot commandGraph then commandGraph\<lparr>maxSlot := slot\<rparr>
              else commandGraph)
         (commandGraphs task)\<rparr>"

text \<open>Lines 390 to 393: the first pager found on a task, if any.\<close>

fun find_databasePager :: "RecordAndSubmitTask list \<Rightarrow> nat option \<Rightarrow> nat option" where
  "find_databasePager [] found = found"
| "find_databasePager (task # rest) found =
     find_databasePager rest
       (if databasePager task \<noteq> None \<and> found = None then databasePager task else found)"

text \<open>
  Lines 398 to 405: every task without a pager gets the new pager \<open>p\<close>, and the compile
  manager is written through the pointer of the task.
\<close>

fun assign_databasePager :: "nat \<Rightarrow> nat option \<Rightarrow> RecordAndSubmitTask list \<Rightarrow> DatabasePager list \<Rightarrow> RecordAndSubmitTask list \<times> DatabasePager list" where
  "assign_databasePager p manager [] store = ([], store)"
| "assign_databasePager p manager (task # rest) store =
     (if databasePager task = None then
        (case assign_databasePager p manager rest
                (store[p := (store ! p)\<lparr>compileManager := manager\<rparr>]) of
           (rest', store') \<Rightarrow> (task\<lparr>databasePager := Some p\<rparr> # rest', store'))
      else
        (case assign_databasePager p manager rest store of
           (rest', store') \<Rightarrow> (task # rest', store')))"

text \<open>Lines 387 to 409.\<close>

definition assign_pager_if_required :: "nat option \<Rightarrow> RecordAndSubmitTask list \<Rightarrow> DatabasePager list \<Rightarrow> RecordAndSubmitTask list \<times> DatabasePager list" where
  "assign_pager_if_required manager ts store =
     (case find_databasePager ts None of
        Some found \<Rightarrow> (ts, store)
      | None \<Rightarrow>
          (let p = length store;
               created = store @ [\<lparr>compileManager = None, started = False\<rparr>]
           in case assign_databasePager p manager ts created of
                (ts', store') \<Rightarrow> (ts', store'[p := (store' ! p)\<lparr>started := True\<rparr>])))"

text \<open>Lines 412 to 431: every bin number of a view gets a bin, with the sort order of its sign.\<close>

fun bin_matched :: "int \<Rightarrow> Bin list \<Rightarrow> bool \<Rightarrow> bool" where
  "bin_matched n [] binNumberMatched = binNumberMatched"
| "bin_matched n (bin # rest) binNumberMatched =
     bin_matched n rest (if binNumber bin = n then True else binNumberMatched)"

fun ensure_bins :: "int list \<Rightarrow> View \<Rightarrow> View" where
  "ensure_bins [] view = view"
| "ensure_bins (n # rest) view =
     ensure_bins rest
       (if \<not> bin_matched n (bins view) False then
          view\<lparr>bins := bins view @
            [\<lparr>binNumber = n,
              sortOrder = (if n < 0 then ASCENDING else if n = 0 then NO_SORT else DESCENDING)\<rparr>]\<rparr>
        else view)"

fun update_views :: "(nat \<times> BinDetails) list \<Rightarrow> (nat \<Rightarrow> View) \<Rightarrow> (nat \<Rightarrow> View)" where
  "update_views [] store = store"
| "update_views ((view, binDetails) # rest) store =
     update_views rest (store(view := ensure_bins (bin_indices binDetails) (store view)))"

text \<open>\<^verbatim>\<open>updateTasks\<close>, lines 359 to 432.\<close>

definition updateTasks :: "Viewer \<Rightarrow> nat option \<Rightarrow> CompileResult \<Rightarrow> Viewer" where
  "updateTasks v manager compileResult =
     (let assigned =
            (if dynamicBufferInfos compileResult \<noteq> []
             then map (assignDynamicBufferInfos (dynamicBufferInfos compileResult)) (tasks v)
             else tasks v);
          raised = map (raise_maxSlot (compiled_maxSlot compileResult)) assigned;
          (paged, store) =
            (if containsPagedLOD compileResult
             then assign_pager_if_required manager raised (pagers v)
             else (raised, pagers v))
      in \<lparr>tasks = paged, pagers = store,
          views = update_views (compiled_views compileResult) (views v)\<rparr>)"

section \<open>Sequences of calls\<close>

text \<open>
  Two calls of \<^verbatim>\<open>transferDynamicData\<close> in succession, with nothing in between; the result is
  that of the second call.
\<close>

definition transfer_twice :: "TransferEnv \<Rightarrow> TransferEnv \<Rightarrow> RecordAndSubmitTask \<Rightarrow> (VkResult \<times> RecordAndSubmitTask \<times> event list) option" where
  "transfer_twice env1 env2 s =
     (case transferDynamicData env1 s of
        None \<Rightarrow> None
      | Some (r1, s1, evs1) \<Rightarrow> transferDynamicData env2 s1)"

text \<open>Any sequence of \<^verbatim>\<open>assignDynamicBufferInfos\<close> and \<^verbatim>\<open>transferDynamicData\<close> calls on a task.\<close>

datatype call = Assign "BufferInfo list" | Transfer TransferEnv

fun calls :: "call list \<Rightarrow> RecordAndSubmitTask \<Rightarrow> RecordAndSubmitTask option" where
  "calls [] s = Some s"
| "calls (Assign bufferInfoList # rest) s = calls rest (assignDynamicBufferInfos bufferInfoList s)"
| "calls (Transfer env # rest) s =
     (case transferDynamicData env s of
        None \<Rightarrow> None
      | Some (r, s', evs) \<Rightarrow> calls rest s')"

section \<open>Example states\<close>

text \<open>
  A task with two buffers after one call of \<^verbatim>\<open>advance\<close>, configured by the application with
  two windows (the second has acquired no image), one wait and one signal semaphore and its
  queues.
\<close>

definition example_task :: RecordAndSubmitTask where
  "example_task = (RecordAndSubmitTask_create 2)
     \<lparr>currentFrameIndex := 0, indices := [0, 2],
      windows :=
        [\<lparr>imageIndex = 1, window_frames =
            [\<lparr>imageAvailableSemaphore = \<lparr>semaphore_vk = 20, pipelineStageFlags = 0x400\<rparr>\<rparr>,
             \<lparr>imageAvailableSemaphore = \<lparr>semaphore_vk = 21, pipelineStageFlags = 0x400\<rparr>\<rparr>]\<rparr>,
         \<lparr>imageIndex = 2, window_frames =
            [\<lparr>imageAvailableSemaphore = \<lparr>semaphore_vk = 22, pipelineStageFlags = 0x400\<rparr>\<rparr>,
             \<lparr>imageAvailableSemaphore = \<lparr>semaphore_vk = 23, pipelineStageFlags = 0x400\<rparr>\<rparr>]\<rparr>],
      waitSemaphores := [\<lparr>semaphore_vk = 31, pipelineStageFlags = 0x1\<rparr>],
      signalSemaphores := [\<lparr>semaphore_vk = 41, pipelineStageFlags = 0x2000\<rparr>],
      queue := Some 7, transferQueue := Some 8\<rparr>"

text \<open>The same task with a transfer-completion semaphore for the frame.\<close>

definition example_task_transferred :: RecordAndSubmitTask where
  "example_task_transferred = example_task
     \<lparr>currentTransferCompletedSemaphore :=
        Some \<lparr>semaphore_vk = 11, pipelineStageFlags = 0x1000\<rparr>\<rparr>"

definition example_commandBuffers :: "CommandBuffer list" where
  "example_commandBuffers =
     [\<lparr>commandBuffer_vk = 1, level = VK_COMMAND_BUFFER_LEVEL_PRIMARY\<rparr>,
      \<lparr>commandBuffer_vk = 2, level = VK_COMMAND_BUFFER_LEVEL_SECONDARY\<rparr>]"

text \<open>
  Two modified entries of 10 and 20 bytes with an external owner on buffer 5, and an entry
  on buffer 6 that only the registry still refers to.
\<close>

definition example_info_a :: BufferInfo where
  "example_info_a = \<lparr>buffer = 5, offset = 0, range_size = 10,
     data = \<lparr>modifiedCount = 1, dataPointer = 100\<rparr>,
     copiedModifiedCount = 0, referenceCount = 2\<rparr>"

definition example_info_b :: BufferInfo where
  "example_info_b = \<lparr>buffer = 5, offset = 16, range_size = 20,
     data = \<lparr>modifiedCount = 3, dataPointer = 200\<rparr>,
     copiedModifiedCount = 2, referenceCount = 2\<rparr>"

definition example_info_c :: BufferInfo where
  "example_info_c = \<lparr>buffer = 6, offset = 0, range_size = 8,
     data = \<lparr>modifiedCount = 1, dataPointer = 300\<rparr>,
     copiedModifiedCount = 0, referenceCount = 1\<rparr>"

text \<open>An entry of 10 bytes on buffer 5 at a destination offset above that of the others.\<close>

definition example_info_d :: BufferInfo where
  "example_info_d = \<lparr>buffer = 5, offset = 64, range_size = 10,
     data = \<lparr>modifiedCount = 1, dataPointer = 400\<rparr>,
     copiedModifiedCount = 0, referenceCount = 2\<rparr>"

definition example_env :: TransferEnv where
  "example_env = \<lparr>allocated_commandBuffer = 50, created_semaphore = 60, created_staging = 70,
     mapped_address = 4096, map_result = VK_SUCCESS, queue_result = VK_SUCCESS\<rparr>"

text \<open>Environments in which the mapping, or the submission, fails with the code \<open>-4\<close>.\<close>

definition example_env_map_fails :: TransferEnv where
  "example_env_map_fails = example_env\<lparr>map_result := - 4\<rparr>"

definition example_env_submit_fails :: TransferEnv where
  "example_env_submit_fails = example_env\<lparr>queue_result := - 4\<rparr>"

text \<open>The example task after the three entries have been registered.\<close>

definition example_registered :: RecordAndSubmitTask where
  "example_registered =
     assignDynamicBufferInfos [example_info_a, example_info_b, example_info_c] example_task"

text \<open>
  Three tasks: the first and the third have pagers of their own, the second has none. The
  compilation found paged content.
\<close>

definition example_viewer :: Viewer where
  "example_viewer =
     \<lparr>tasks = [example_task\<lparr>databasePager := Some 0\<rparr>, example_task,
               example_task\<lparr>databasePager := Some 1\<rparr>],
      pagers = [\<lparr>compileManager = Some 3, started = True\<rparr>,
                \<lparr>compileManager = Some 3, started = True\<rparr>],
      views = (\<lambda>view. \<lparr>bins = []\<rparr>)\<rparr>"

definition example_viewer_unpaged :: Viewer where
  "example_viewer_unpaged =
     \<lparr>tasks = [example_task, example_task], pagers = [],
      views = (\<lambda>view. \<lparr>bins = []\<rparr>)\<rparr>"

definition example_compileResult :: CompileResult where
  "example_compileResult =
     \<lparr>dynamicBufferInfos = [], compiled_maxSlot = 2, containsPagedLOD = True,
      compiled_views = []\<rparr>"

section \<open>Properties of the frame index sequencer\<close>

lemma length_shift_indices [simp]: "length (shift_indices i xs) = length xs"
  by (induction i arbitrary: xs) auto

lemma nth_shift_indices:
  "i < length xs \<Longrightarrow> j < length xs \<Longrightarrow>
   shift_indices i xs ! j = (if 1 \<le> j \<and> j \<le> i then xs ! (j - 1) else xs ! j)"
proof (induction i arbitrary: xs)
  case 0
  then show ?case by simp
next
  case (Suc i)
  let ?ys = "xs[Suc i := xs ! i]"
  have "shift_indices i ?ys ! j = (if 1 \<le> j \<and> j \<le> i then ?ys ! (j - 1) else ?ys ! j)"
    using Suc.prems by (intro Suc.IH) auto
  then show ?case
    using Suc.prems by (auto simp: nth_list_update le_Suc_eq)
qed

lemma ring_state_0: "ring_state N 0 = RecordAndSubmitTask_create N"
  by (simp add: ring_state_def ring_indices_def RecordAndSubmitTask_create_def map_replicate_trivial)

lemma advance_ring_state:
  assumes "1 \<le> N"
  shows "advance (ring_state N k) = Some (ring_state N (Suc k))"
proof (cases "k = 0")
  case True
  have "(replicate N N)[0 := 0] = ring_indices N (Suc 0)"
    using assms by (intro nth_equalityI) (auto simp: ring_indices_def nth_list_update)
  then show ?thesis
    using True assms
    by (simp add: advance_def ring_state_def RecordAndSubmitTask_create_def ring_indices_def map_replicate_trivial)
next
  case False
  let ?xs = "ring_indices N k"
  have len: "length ?xs = N" by (simp add: ring_indices_def)
  have c: "(if (k - 1) mod N + 1 > N - 1 then 0 else (k - 1) mod N + 1) = k mod N"
  proof -
    obtain m where m: "k = Suc m" using False by (cases k) auto
    have "m mod N < N" using assms by simp
    then have "(if m mod N + 1 > N - 1 then 0 else m mod N + 1) = Suc m mod N"
      unfolding mod_Suc by (cases "Suc (m mod N) = N") auto
    then show ?thesis by (auto simp: m split: if_splits)
  qed
  have "(shift_indices (N - 1) ?xs)[0 := k mod N] = ring_indices N (Suc k)"
  proof (intro nth_equalityI)
    show "length ((shift_indices (N - 1) ?xs)[0 := k mod N]) = length (ring_indices N (Suc k))"
      by (simp add: ring_indices_def)
  next
    fix j assume "j < length ((shift_indices (N - 1) ?xs)[0 := k mod N])"
    then have j: "j < N" by (simp add: ring_indices_def)
    show "(shift_indices (N - 1) ?xs)[0 := k mod N] ! j = ring_indices N (Suc k) ! j"
    proof (cases "j = 0")
      case True
      then show ?thesis using j len by (simp add: ring_indices_def)
    next
      case False
      then have "shift_indices (N - 1) ?xs ! j = ?xs ! (j - 1)"
        using j len assms by (subst nth_shift_indices) auto
      moreover have "?xs ! (j - 1) = (if j - 1 < k then (k - 1 - (j - 1)) mod N else N)"
        using j by (simp add: ring_indices_def)
      moreover have "ring_indices N (Suc k) ! j = (if j < Suc k then (k - j) mod N else N)"
        using j by (simp add: ring_indices_def)
      ultimately show ?thesis using False by (auto simp: nth_list_update)
    qed
  qed
  moreover have "\<not> N \<le> (k - 1) mod N" using assms by (simp add: not_le)
  ultimately show ?thesis
    using False len c
    by (auto simp: advance_def ring_state_def RecordAndSubmitTask_create_def Let_def
             split: if_splits)
qed

lemma advance_calls_ring_state:
  "1 \<le> N \<Longrightarrow> advance_calls k (RecordAndSubmitTask_create N) = Some (ring_state N k)"
  by (induction k) (simp_all add: ring_state_0 advance_ring_state)

lemma index_ring_state:
  "index (ring_state N k) j = (if j < N \<and> j < k then (k - 1 - j) mod N else N)"
  by (simp add: index_def ring_state_def ring_indices_def)

lemma frames_ring_state: "frames (ring_state N k) = replicate N new_Frame"
  by (simp add: ring_state_def RecordAndSubmitTask_create_def)

lemma advance_calls_no_buffers:
  "advance_calls m (RecordAndSubmitTask_create 0) =
     (if m = 0 then Some (RecordAndSubmitTask_create 0) else None)"
proof (induction m)
  case 0
  show ?case by simp
next
  case (Suc m)
  have "advance (RecordAndSubmitTask_create 0) = None"
    by (simp add: advance_def RecordAndSubmitTask_create_def)
  with Suc show ?case by simp
qed

lemma advance_calls_create_cases:
  assumes "advance_calls m (RecordAndSubmitTask_create N) = Some s"
  shows "s = ring_state N m"
proof (cases "N = 0")
  case True
  with assms have "m = 0" "s = RecordAndSubmitTask_create 0"
    by (auto simp: advance_calls_no_buffers split: if_splits)
  with True show ?thesis by (simp add: ring_state_0)
next
  case False
  then show ?thesis using assms by (simp add: advance_calls_ring_state)
qed

text \<open>
  Claim C1. For every buffered-frame count \<open>N \<ge> 1\<close> and every number \<open>k\<close> of \<^verbatim>\<open>advance\<close> calls on a
  new task the calls return, and afterwards: \<open>index 0\<close> is \<open>(k - 1) mod N\<close> when \<open>k \<ge> 1\<close>; for
  \<open>1 \<le> j < min k N\<close>, \<open>index j\<close> is the value \<open>index 0\<close> had after call \<open>k - j\<close>; and \<open>index j\<close> is
  the unset value \<open>N\<close> for every \<open>j \<ge> N\<close> and for every \<open>j \<ge> 1\<close> while fewer than \<open>j + 1\<close> calls have
  been made.
\<close>

theorem advance_index_ring:
  assumes "1 \<le> N"
  shows "\<exists>s. advance_calls k (RecordAndSubmitTask_create N) = Some s
     \<and> (1 \<le> k \<longrightarrow> index s 0 = (k - 1) mod N)
     \<and> (\<forall>j. 1 \<le> j \<and> j < min k N \<longrightarrow>
            (\<exists>s'. advance_calls (k - j) (RecordAndSubmitTask_create N) = Some s'
                  \<and> index s j = index s' 0))
     \<and> (\<forall>j. N \<le> j \<or> (1 \<le> j \<and> k < j + 1) \<longrightarrow> index s j = N)"
proof (intro exI conjI allI impI)
  show "advance_calls k (RecordAndSubmitTask_create N) = Some (ring_state N k)"
    using assms by (rule advance_calls_ring_state)
next
  assume "1 \<le> k"
  then show "index (ring_state N k) 0 = (k - 1) mod N"
    using assms by (simp add: index_ring_state)
next
  fix j assume j: "1 \<le> j \<and> j < min k N"
  show "advance_calls (k - j) (RecordAndSubmitTask_create N) = Some (ring_state N (k - j))"
    using assms by (rule advance_calls_ring_state)
  have "index (ring_state N k) j = (k - 1 - j) mod N"
    using j by (simp add: index_ring_state)
  moreover have "index (ring_state N (k - j)) 0 = (k - j - 1) mod N"
    using j assms by (simp add: index_ring_state)
  ultimately show "index (ring_state N k) j = index (ring_state N (k - j)) 0"
    by simp
next
  fix j assume "N \<le> j \<or> (1 \<le> j \<and> k < j + 1)"
  then show "index (ring_state N k) j = N"
    by (auto simp: index_ring_state)
qed

theorem advance_index_ring_witness:
  "(1::nat) \<le> 3 \<and> (\<exists>s. advance_calls 5 (RecordAndSubmitTask_create 3) = Some s
      \<and> index s 0 = 1 \<and> index s 3 = 3 \<and> index s 7 = 3)"
proof -
  have h: "(1::nat) \<le> 3" by simp
  from advance_index_ring [OF h, of 5] obtain s where
    s: "advance_calls 5 (RecordAndSubmitTask_create 3) = Some s"
    and a: "1 \<le> (5::nat) \<longrightarrow> index s 0 = (5 - 1) mod 3"
    and c: "\<forall>j. 3 \<le> j \<or> (1 \<le> j \<and> 5 < j + 1) \<longrightarrow> index s j = 3"
    by blast
  from a have "index s 0 = 1" by simp
  moreover from c have "index s 3 = 3" "index s 7 = 3" by simp_all
  ultimately show ?thesis using s by auto
qed

text \<open>
  Claim C10. On a task reached from construction by \<open>m\<close> calls of \<^verbatim>\<open>advance\<close>, \<open>fence k\<close> is the fence
  of slot \<open>index k\<close> exactly when \<open>index k\<close> is a slot, a value below \<open>N\<close>, and the null pointer
  otherwise; \<open>index k\<close> is the unset value \<open>N\<close>, and \<open>fence k\<close> null, for every \<open>k \<ge> N\<close> and for every
  \<open>k \<ge> 1\<close> while fewer than \<open>k + 1\<close> calls have been made.
\<close>

theorem fence_null_on_sentinel:
  assumes "advance_calls m (RecordAndSubmitTask_create N) = Some s"
  shows "fence s k = (if index s k < N then Some (frame_fence (frames s ! index s k)) else None)
     \<and> (N \<le> k \<or> (1 \<le> k \<and> m < k + 1) \<longrightarrow> index s k = N \<and> fence s k = None)"
proof -
  have s: "s = ring_state N m" using assms by (rule advance_calls_create_cases)
  have "fence s k = (if index s k < N then Some (frame_fence (frames s ! index s k)) else None)"
    by (simp add: fence_def s frames_ring_state Let_def)
  moreover have "N \<le> k \<or> (1 \<le> k \<and> m < k + 1) \<longrightarrow> index s k = N"
    by (auto simp: s index_ring_state)
  ultimately show ?thesis by simp
qed

theorem fence_null_on_sentinel_witness:
  "\<exists>s. advance_calls 1 (RecordAndSubmitTask_create 2) = Some s
      \<and> fence s 0 = Some (frame_fence (frames s ! 0)) \<and> index s 0 = 0
      \<and> index s 1 = 2 \<and> fence s 1 = None \<and> index s 2 = 2 \<and> fence s 2 = None"
proof -
  have h: "advance_calls 1 (RecordAndSubmitTask_create 2) = Some (ring_state 2 1)"
    by (rule advance_calls_ring_state) simp
  have i0: "index (ring_state 2 1) 0 = 0" by (simp add: index_ring_state)
  from fence_null_on_sentinel [OF h, of 0] fence_null_on_sentinel [OF h, of 1]
    fence_null_on_sentinel [OF h, of 2] i0 h
  show ?thesis by (intro exI [of _ "ring_state 2 1"]) simp
qed


section \<open>Properties of finish\<close>

lemma record_dependencies_eq:
  "record_dependencies cbs (vks, deps) =
     (vks @ map commandBuffer_vk (filter (\<lambda>cb. level cb = VK_COMMAND_BUFFER_LEVEL_PRIMARY) cbs),
      deps @ cbs)"
  by (induction cbs arbitrary: vks deps) auto

lemma wait_on_windows_eq:
  "wait_on_windows ws (sems, stages) =
     (sems @ map (\<lambda>w. semaphore_vk (imageAvailableSemaphore (window_frames w ! imageIndex w)))
               (filter (\<lambda>w. imageIndex w < numFrames w) ws),
      stages @ map (\<lambda>w. pipelineStageFlags (imageAvailableSemaphore (window_frames w ! imageIndex w)))
               (filter (\<lambda>w. imageIndex w < numFrames w) ws))"
  by (induction ws arbitrary: sems stages) (auto simp: Let_def)

lemma wait_on_semaphores_eq:
  "wait_on_semaphores xs (sems, stages) =
     (sems @ map semaphore_vk xs, stages @ map pipelineStageFlags xs)"
  by (induction xs arbitrary: sems stages) auto

lemma signal_handles_eq: "signal_handles xs acc = acc @ map semaphore_vk xs"
  by (induction xs arbitrary: acc) auto

text \<open>
  Claim C8. For every task state, \<^verbatim>\<open>finish\<close> on an empty list of recorded command buffers makes
  no queue submission, leaves the task and with it the dependency lists of every fence
  unchanged, sleeps 16 milliseconds and returns \<^verbatim>\<open>VK_SUCCESS\<close>.
\<close>

theorem finish_idle_frame:
  "finish submit_result s [] = Some (VK_SUCCESS, s, [SleepFor 16])"
  by (simp add: finish_def)

text \<open>
  Claim C2. On a task with a current slot and a queue, \<^verbatim>\<open>finish\<close> on a non-empty list of
  recorded command buffers makes exactly one queue submission, guarded by the fence of the
  current slot. It waits on the transfer-completion semaphore if there is one, then on the
  image-available semaphore of each window whose acquired image index is below its frame
  count, then on every configured wait semaphore, each with its own stage mask; it signals
  the configured signal semaphores; its command buffers are the recorded ones of primary
  level; and all recorded command buffers are appended to the dependencies of the fence.
\<close>

theorem finish_submits_once:
  assumes "recordedCommandBuffers \<noteq> []"
    and "fence s 0 = Some current_fence"
    and "queue s = Some q"
  shows "finish submit_result s recordedCommandBuffers =
     Some (submit_result,
       set_fence s (index s 0)
         (current_fence\<lparr>dependentCommandBuffers :=
              dependentCommandBuffers current_fence @ recordedCommandBuffers,
            dependentSemaphores := signalSemaphores s\<rparr>),
       [QueueSubmit q
          \<lparr>pWaitSemaphores =
             (case currentTransferCompletedSemaphore s of
                None \<Rightarrow> [] | Some semaphore \<Rightarrow> [semaphore_vk semaphore])
             @ map (\<lambda>w. semaphore_vk (imageAvailableSemaphore (window_frames w ! imageIndex w)))
                 (filter (\<lambda>w. imageIndex w < numFrames w) (windows s))
             @ map semaphore_vk (waitSemaphores s),
           pWaitDstStageMask =
             (case currentTransferCompletedSemaphore s of
                None \<Rightarrow> [] | Some semaphore \<Rightarrow> [pipelineStageFlags semaphore])
             @ map (\<lambda>w. pipelineStageFlags (imageAvailableSemaphore (window_frames w ! imageIndex w)))
                 (filter (\<lambda>w. imageIndex w < numFrames w) (windows s))
             @ map pipelineStageFlags (waitSemaphores s),
           pCommandBuffers =
             map commandBuffer_vk
               (filter (\<lambda>cb. level cb = VK_COMMAND_BUFFER_LEVEL_PRIMARY) recordedCommandBuffers),
           pSignalSemaphores = map semaphore_vk (signalSemaphores s)\<rparr>
          (Some (index s 0)) submit_result])"
  using assms
  by (simp add: finish_def record_dependencies_eq wait_on_windows_eq wait_on_semaphores_eq
        signal_handles_eq split: option.splits)

theorem finish_idle_frame_witness:
  "finish 0 example_task_transferred [] = Some (VK_SUCCESS, example_task_transferred, [SleepFor 16])"
  by (rule finish_idle_frame)

lemma fence_example_task_transferred:
  "fence example_task_transferred 0 = Some \<lparr>dependentCommandBuffers = [], dependentSemaphores = []\<rparr>"
  by (simp add: example_task_transferred_def example_task_def fence_def index_def RecordAndSubmitTask_create_def new_Frame_def)

theorem finish_submits_once_witness:
  "example_commandBuffers \<noteq> []
   \<and> fence example_task_transferred 0 = Some \<lparr>dependentCommandBuffers = [], dependentSemaphores = []\<rparr>
   \<and> queue example_task_transferred = Some 7
   \<and> (\<exists>s'. finish 0 example_task_transferred example_commandBuffers =
          Some (VK_SUCCESS, s',
            [QueueSubmit 7
               \<lparr>pWaitSemaphores = [11, 21, 31],
                pWaitDstStageMask = [0x1000, 0x400, 0x1],
                pCommandBuffers = [1],
                pSignalSemaphores = [41]\<rparr>
               (Some 0) VK_SUCCESS])
        \<and> fence s' 0 = Some \<lparr>dependentCommandBuffers = example_commandBuffers,
             dependentSemaphores = [\<lparr>semaphore_vk = 41, pipelineStageFlags = 0x2000\<rparr>]\<rparr>)"
proof -
  have a: "example_commandBuffers \<noteq> []" by (simp add: example_commandBuffers_def)
  have c: "queue example_task_transferred = Some 7" by (simp add: example_task_transferred_def example_task_def)
  have i: "index example_task_transferred 0 = 0"
    by (simp add: example_task_transferred_def example_task_def index_def RecordAndSubmitTask_create_def)
  have fields:
    "currentTransferCompletedSemaphore example_task_transferred =
       Some \<lparr>semaphore_vk = 11, pipelineStageFlags = 0x1000\<rparr>"
    "map (\<lambda>w. imageAvailableSemaphore (window_frames w ! imageIndex w))
       (filter (\<lambda>w. imageIndex w < numFrames w) (windows example_task_transferred)) =
       [\<lparr>semaphore_vk = 21, pipelineStageFlags = 0x400\<rparr>]"
    "waitSemaphores example_task_transferred = [\<lparr>semaphore_vk = 31, pipelineStageFlags = 0x1\<rparr>]"
    "signalSemaphores example_task_transferred = [\<lparr>semaphore_vk = 41, pipelineStageFlags = 0x2000\<rparr>]"
    by (simp_all add: example_task_transferred_def example_task_def numFrames_def)
  have m: "map (\<lambda>w. semaphore_vk (imageAvailableSemaphore (window_frames w ! imageIndex w))) ws =
      map semaphore_vk (map (\<lambda>w. imageAvailableSemaphore (window_frames w ! imageIndex w)) ws)"
    "map (\<lambda>w. pipelineStageFlags (imageAvailableSemaphore (window_frames w ! imageIndex w))) ws =
      map pipelineStageFlags (map (\<lambda>w. imageAvailableSemaphore (window_frames w ! imageIndex w)) ws)"
    for ws by simp_all
  have p: "map commandBuffer_vk
      (filter (\<lambda>cb. level cb = VK_COMMAND_BUFFER_LEVEL_PRIMARY) example_commandBuffers) = [1]"
    by (simp add: example_commandBuffers_def)
  have g: "fence (set_fence example_task_transferred 0 fnc) 0 = Some fnc" for fnc
    by (simp add: set_fence_def example_task_transferred_def example_task_def fence_def index_def RecordAndSubmitTask_create_def)
  have "finish 0 example_task_transferred example_commandBuffers =
      Some (VK_SUCCESS,
        set_fence example_task_transferred 0
          \<lparr>dependentCommandBuffers = example_commandBuffers,
           dependentSemaphores = [\<lparr>semaphore_vk = 41, pipelineStageFlags = 0x2000\<rparr>]\<rparr>,
        [QueueSubmit 7
           \<lparr>pWaitSemaphores = [11, 21, 31], pWaitDstStageMask = [0x1000, 0x400, 0x1],
            pCommandBuffers = [1], pSignalSemaphores = [41]\<rparr>
           (Some 0) VK_SUCCESS])"
    unfolding finish_submits_once [OF a fence_example_task_transferred c, of 0] i m fields p by simp
  then show ?thesis
    using a c fence_example_task_transferred g by simp
qed

section \<open>The loops of the transfer\<close>

lemma end_offset_Nil [simp]: "end_offset [] offs = offs"
  by (simp add: end_offset_def)

lemma end_offset_Cons:
  "end_offset ((offs, bi) # P) offs0 = end_offset P (next_offset 4 (offs + range_size bi))"
  by (simp add: end_offset_def)

lemma end_offset_append:
  "end_offset (P @ Q) offs = end_offset Q (end_offset P offs)"
  by (simp add: end_offset_def)

lemma live_entries_Nil [simp]: "live_entries [] = []"
  by (simp add: live_entries_def)

lemma live_entries_Cons:
  "live_entries ((k, bi) # es) =
     (if referenceCount bi = 1 then live_entries es else (k, mark_copied bi) # live_entries es)"
  by (simp add: live_entries_def)

lemma getModifiedCount_eq:
  "getModifiedCount d mc = (modifiedCount d \<noteq> mc, modifiedCount d)"
  by (simp add: getModifiedCount_def)

lemma list_update_window:
  assumes "w < length regs"
  shows "take (Suc w) (regs[w := r]) @ xs @ drop (Suc (w + n)) (regs[w := r]) =
         take w regs @ (r # xs) @ drop (w + Suc n) regs"
  using assms by (simp add: take_Suc_conv_app_nth)

lemma transfer_bufferInfos_Some:
  "transfer_bufferInfos bd es rc st = Some (kept, rc', st') \<Longrightarrow>
     kept = live_entries es
   \<and> rc' = rc + length (staged_entries es (tl_offset st))
   \<and> (staged_entries es (tl_offset st) \<noteq> [] \<longrightarrow> tl_pRegions st + rc' \<le> length (tl_copyRegions st))
   \<and> (staged_entries es (tl_offset st) \<noteq> [] \<longrightarrow> bd \<noteq> None)
   \<and> tl_events st' = tl_events st @ map (copy_call bd) (staged_entries es (tl_offset st))
   \<and> tl_copyRegions st' =
       take (tl_pRegions st + rc) (tl_copyRegions st)
       @ map copy_region (staged_entries es (tl_offset st))
       @ drop (tl_pRegions st + rc + length (staged_entries es (tl_offset st))) (tl_copyRegions st)
   \<and> tl_offset st' = end_offset (staged_entries es (tl_offset st)) (tl_offset st)
   \<and> tl_pRegions st' = tl_pRegions st
   \<and> tl_commands st' = tl_commands st"
proof (induction es arbitrary: rc st kept rc' st')
  case Nil
  then show ?case by simp
next
  case (Cons e es)
  obtain k bi where e: "e = (k, bi)" by (cases e)
  show ?case
  proof (cases "referenceCount bi = 1")
    case True
    with Cons.prems e have "transfer_bufferInfos bd es rc st = Some (kept, rc', st')" by simp
    from Cons.IH [OF this] show ?thesis using True e by (auto simp: live_entries_Cons)
  next
    case live: False
    show ?thesis
    proof (cases "modifiedCount (data bi) \<noteq> copiedModifiedCount bi")
      case False
      with Cons.prems e live obtain kept0 where
        r: "transfer_bufferInfos bd es rc st = Some (kept0, rc', st')"
        and k: "kept = (k, bi\<lparr>copiedModifiedCount := modifiedCount (data bi)\<rparr>) # kept0"
        by (auto simp: getModifiedCount_eq)
      from Cons.IH [OF r] show ?thesis using False live e k
        by (auto simp: live_entries_Cons mark_copied_def)
    next
      case True
      let ?w = "tl_pRegions st + rc"
      let ?st1 = "st\<lparr>tl_events := tl_events st @
                      [Memcpy bd (tl_offset st) (dataPointer (data bi)) (range_size bi)],
                    tl_copyRegions := (tl_copyRegions st)
                      [?w := \<lparr>srcOffset = tl_offset st, dstOffset = offset bi,
                                copySize = range_size bi\<rparr>],
                    tl_offset := next_offset 4 (tl_offset st + range_size bi)\<rparr>"
      from Cons.prems e live True have w: "?w < length (tl_copyRegions st)"
        and nn: "bd \<noteq> None"
        by (auto simp: getModifiedCount_eq split: if_splits)
      with Cons.prems e live True obtain kept0 where
        r: "transfer_bufferInfos bd es (rc + 1) ?st1 = Some (kept0, rc', st')"
        and k: "kept = (k, bi\<lparr>copiedModifiedCount := modifiedCount (data bi)\<rparr>) # kept0"
        by (auto simp: getModifiedCount_eq)
      note ih = Cons.IH [OF r]
      let ?P = "staged_entries es (next_offset 4 (tl_offset st + range_size bi))"
      have se: "staged_entries (e # es) (tl_offset st) = (tl_offset st, bi) # ?P"
        using e live True by simp
      have regs: "tl_copyRegions st' =
          take ?w (tl_copyRegions st) @ map copy_region ((tl_offset st, bi) # ?P)
          @ drop (?w + length ((tl_offset st, bi) # ?P)) (tl_copyRegions st)"
        using ih w list_update_window [OF w, of _ "map copy_region ?P" "length ?P"]
        by (simp add: copy_region_def)
      have bound: "?w + Suc (length ?P) \<le> length (tl_copyRegions st)"
        using ih w by (cases "?P = []") auto
      show ?thesis
        unfolding se
        using ih k e live regs bound nn
        by (simp add: live_entries_Cons mark_copied_def copy_call_def end_offset_Cons)
    qed
  qed
qed

lemma transfer_bufferInfos_defined:
  "tl_pRegions st + rc + length (staged_entries es (tl_offset st)) \<le> length (tl_copyRegions st) \<Longrightarrow>
   staged_entries es (tl_offset st) \<noteq> [] \<longrightarrow> bd \<noteq> None \<Longrightarrow>
   \<exists>r. transfer_bufferInfos bd es rc st = Some r"
proof (induction es arbitrary: rc st)
  case Nil
  show ?case by simp
next
  case (Cons e es)
  obtain k bi where e: "e = (k, bi)" by (cases e)
  show ?case
  proof (cases "referenceCount bi \<noteq> 1 \<and> modifiedCount (data bi) \<noteq> copiedModifiedCount bi")
    case False
    then have "staged_entries (e # es) (tl_offset st) = staged_entries es (tl_offset st)"
      using e by auto
    with Cons.prems have "\<exists>r. transfer_bufferInfos bd es rc st = Some r"
      by (intro Cons.IH) simp_all
    then show ?thesis using False e by (auto simp: getModifiedCount_eq)
  next
    case True
    let ?st1 = "st\<lparr>tl_events := tl_events st @
                    [Memcpy bd (tl_offset st) (dataPointer (data bi)) (range_size bi)],
                  tl_copyRegions := (tl_copyRegions st)
                    [tl_pRegions st + rc := \<lparr>srcOffset = tl_offset st, dstOffset = offset bi,
                              copySize = range_size bi\<rparr>],
                  tl_offset := next_offset 4 (tl_offset st + range_size bi)\<rparr>"
    have se: "staged_entries (e # es) (tl_offset st) =
        (tl_offset st, bi) # staged_entries es (next_offset 4 (tl_offset st + range_size bi))"
      using e True by simp
    have nn: "bd \<noteq> None"
      using Cons.prems(2) unfolding se by simp
    have "\<exists>r. transfer_bufferInfos bd es (rc + 1) ?st1 = Some r"
      using Cons.prems(1) nn unfolding se by (intro Cons.IH) simp_all
    moreover have "tl_pRegions st + rc < length (tl_copyRegions st)"
      using Cons.prems(1) unfolding se by simp
    ultimately show ?thesis using True e nn by (auto simp: getModifiedCount_eq)
  qed
qed

lemma transfer_buffers_Some:
  "transfer_buffers bd sv m st = Some (m', st') \<Longrightarrow>
     m' = pruned_registry m
   \<and> (staged_registry m (tl_offset st) \<noteq> [] \<longrightarrow>
        tl_pRegions st + length (staged_registry m (tl_offset st)) \<le> length (tl_copyRegions st))
   \<and> (staged_registry m (tl_offset st) \<noteq> [] \<longrightarrow> bd \<noteq> None)
   \<and> tl_events st' = tl_events st @ map (copy_call bd) (staged_registry m (tl_offset st))
   \<and> tl_copyRegions st' =
       take (tl_pRegions st) (tl_copyRegions st)
       @ map copy_region (staged_registry m (tl_offset st))
       @ drop (tl_pRegions st + length (staged_registry m (tl_offset st))) (tl_copyRegions st)
   \<and> tl_offset st' = end_offset (staged_registry m (tl_offset st)) (tl_offset st)
   \<and> tl_pRegions st' = tl_pRegions st + length (staged_registry m (tl_offset st))
   \<and> (staged_registry m (tl_offset st) = [] \<longrightarrow> tl_commands st' = tl_commands st)"
proof (induction m arbitrary: st m' st')
  case Nil
  then show ?case by simp
next
  case (Cons be rest)
  obtain b es where be: "be = (b, es)" by (cases be)
  let ?P = "staged_entries es (tl_offset st)"
  let ?p = "tl_pRegions st"
  let ?regs = "tl_copyRegions st"
  from Cons.prems be obtain kept rc st1 where
    inner: "transfer_bufferInfos bd es 0 st = Some (kept, rc, st1)"
    by (auto split: option.splits)
  note i = transfer_bufferInfos_Some [OF inner]
  define st2 where "st2 =
     (if rc > 0 then
        st1\<lparr>tl_commands := tl_commands st1 @
               [\<lparr>cmd_srcBuffer = sv, cmd_dstBuffer = b,
                 cmd_regions = take rc (drop (tl_pRegions st1) (tl_copyRegions st1))\<rparr>],
             tl_pRegions := tl_pRegions st1 + rc\<rparr>
      else st1)"
  from Cons.prems be inner obtain m0 where
    outer: "transfer_buffers bd sv rest st2 = Some (m0, st')"
    and m': "m' = (if kept = [] then m0 else (b, kept) # m0)"
    unfolding st2_def by auto
  have rc: "rc = length ?P" using i by simp
  have bound: "?P \<noteq> [] \<longrightarrow> ?p + length ?P \<le> length ?regs" using i by auto
  have f2: "tl_offset st2 = end_offset ?P (tl_offset st)"
    "tl_pRegions st2 = ?p + length ?P"
    "tl_events st2 = tl_events st @ map (copy_call bd) ?P"
    "tl_copyRegions st2 = take ?p ?regs @ map copy_region ?P @ drop (?p + length ?P) ?regs"
    "?P = [] \<longrightarrow> tl_commands st2 = tl_commands st"
    unfolding st2_def using i by (auto simp: rc)
  let ?Q = "staged_registry rest (end_offset ?P (tl_offset st))"
  note o = Cons.IH [OF outer, unfolded f2(1)]
  have sr: "staged_registry (be # rest) (tl_offset st) = ?P @ ?Q"
    using be by simp
  have len2: "length (tl_copyRegions st2) = length ?regs"
    unfolding f2 using bound by (cases "?P = []") auto
  have regs: "tl_copyRegions st' =
      take ?p ?regs @ map copy_region (?P @ ?Q) @ drop (?p + length (?P @ ?Q)) ?regs"
  proof (cases "?P = []")
    case True
    then show ?thesis using o f2 by simp
  next
    case False
    with bound have b: "?p + length ?P \<le> length ?regs" by simp
    have "tl_copyRegions st' =
       take (?p + length ?P) (tl_copyRegions st2) @ map copy_region ?Q
       @ drop (?p + length ?P + length ?Q) (tl_copyRegions st2)"
      using o f2(2) by simp
    also have "take (?p + length ?P) (tl_copyRegions st2) = take ?p ?regs @ map copy_region ?P"
      unfolding f2 using b by simp
    also have "drop (?p + length ?P + length ?Q) (tl_copyRegions st2) =
       drop (?p + length ?P + length ?Q) ?regs"
      unfolding f2 using b by (simp add: add.commute add.left_commute)
    finally show ?thesis by (simp add: add.assoc)
  qed
  have bnd: "?P @ ?Q \<noteq> [] \<longrightarrow> ?p + length (?P @ ?Q) \<le> length ?regs"
  proof (cases "?Q = []")
    case True
    then show ?thesis using bound by simp
  next
    case False
    then have "tl_pRegions st2 + length ?Q \<le> length (tl_copyRegions st2)"
      using o by simp
    then have "?p + length ?P + length ?Q \<le> length ?regs"
      by (simp only: len2 f2(2))
    then show ?thesis by simp
  qed
  have nn: "?P @ ?Q \<noteq> [] \<longrightarrow> bd \<noteq> None"
  proof -
    have "?P \<noteq> [] \<longrightarrow> bd \<noteq> None" using i by blast
    moreover have "?Q \<noteq> [] \<longrightarrow> bd \<noteq> None" using o by blast
    ultimately show ?thesis unfolding append_is_Nil_conv by blast
  qed
  have pr: "m' = pruned_registry (be # rest)"
    using be m' i o by simp
  have ev: "tl_events st' = tl_events st @ map (copy_call bd) (?P @ ?Q)"
    using o f2(3) by simp
  have off: "tl_offset st' = end_offset (?P @ ?Q) (tl_offset st)"
    using o by (simp add: end_offset_append)
  have pR: "tl_pRegions st' = ?p + length (?P @ ?Q)"
    using o f2(2) by simp
  have cm: "?P @ ?Q = [] \<longrightarrow> tl_commands st' = tl_commands st"
    using o f2(5) by auto
  show ?case
    unfolding sr using pr bnd nn ev regs off pR cm by blast
qed

lemma transfer_buffers_defined:
  "tl_pRegions st + length (staged_registry m (tl_offset st)) \<le> length (tl_copyRegions st) \<Longrightarrow>
   staged_registry m (tl_offset st) \<noteq> [] \<longrightarrow> bd \<noteq> None \<Longrightarrow>
   \<exists>r. transfer_buffers bd sv m st = Some r"
proof (induction m arbitrary: st)
  case Nil
  show ?case by simp
next
  case (Cons be rest)
  obtain b es where be: "be = (b, es)" by (cases be)
  let ?P = "staged_entries es (tl_offset st)"
  let ?Q = "staged_registry rest (end_offset ?P (tl_offset st))"
  have sr: "staged_registry (be # rest) (tl_offset st) = ?P @ ?Q"
    using be by simp
  have le: "tl_pRegions st + length ?P + length ?Q \<le> length (tl_copyRegions st)"
    using Cons.prems(1) unfolding sr by simp
  have nn: "?P \<noteq> [] \<longrightarrow> bd \<noteq> None" "?Q \<noteq> [] \<longrightarrow> bd \<noteq> None"
    using Cons.prems(2) unfolding sr append_is_Nil_conv by blast+
  from le nn(1) have "\<exists>r. transfer_bufferInfos bd es 0 st = Some r"
    by (intro transfer_bufferInfos_defined) simp_all
  then obtain kept rc st1 where
    inner: "transfer_bufferInfos bd es 0 st = Some (kept, rc, st1)"
    by (metis prod_cases3)
  note i = transfer_bufferInfos_Some [OF inner]
  define st2 where "st2 =
     (if rc > 0 then
        st1\<lparr>tl_commands := tl_commands st1 @
               [\<lparr>cmd_srcBuffer = sv, cmd_dstBuffer = b,
                 cmd_regions = take rc (drop (tl_pRegions st1) (tl_copyRegions st1))\<rparr>],
             tl_pRegions := tl_pRegions st1 + rc\<rparr>
      else st1)"
  have rc: "rc = length ?P" using i by simp
  have f2: "tl_offset st2 = end_offset ?P (tl_offset st)"
    "tl_pRegions st2 = tl_pRegions st + length ?P"
    "tl_copyRegions st2 = take (tl_pRegions st) (tl_copyRegions st) @ map copy_region ?P
        @ drop (tl_pRegions st + length ?P) (tl_copyRegions st)"
    unfolding st2_def using i by (auto simp: rc)
  have len2: "length (tl_copyRegions st2) = length (tl_copyRegions st)"
    unfolding f2 using le by auto
  have "tl_pRegions st2 + length (staged_registry rest (tl_offset st2)) \<le> length (tl_copyRegions st2)"
    unfolding len2 unfolding f2 using le by simp
  moreover have "staged_registry rest (tl_offset st2) \<noteq> [] \<longrightarrow> bd \<noteq> None"
    unfolding f2 using nn(2) .
  ultimately have "\<exists>r. transfer_buffers bd sv rest st2 = Some r"
    by (rule Cons.IH)
  then show ?case
    using be inner unfolding st2_def by auto
qed

lemma transfer_regions_Some:
  assumes "transfer_regions env s i frame cb sem stg evs = Some (r, s', evs')"
  defines "PR \<equiv> staged_registry (dynamicDataMap s) 0"
  shows "\<exists>cmds.
      s' = s\<lparr>frames := (frames s)[i := frame\<lparr>copyRegions :=
                   map copy_region PR @ replicate (dynamicDataTotalRegions s - length PR) zero_region,
                 transferCommandBuffer := Some (cb\<lparr>recorded := cmds\<rparr>)\<rparr>],
             dynamicDataMap := pruned_registry (dynamicDataMap s),
             currentTransferCompletedSemaphore :=
               (if PR \<noteq> [] \<and> queue_result env = VK_SUCCESS then Some sem
                else currentTransferCompletedSemaphore s)\<rparr>
    \<and> (PR = [] \<longrightarrow> cmds = recorded cb)
    \<and> length PR \<le> dynamicDataTotalRegions s
    \<and> r = (if PR = [] then VK_SUCCESS else queue_result env)
    \<and> (PR \<noteq> [] \<longrightarrow> transferQueue s \<noteq> None \<and> buffer_data frame \<noteq> None)
    \<and> evs' = evs @ map (copy_call (buffer_data frame)) PR
         @ (if PR = [] then []
            else [QueueSubmit (the (transferQueue s))
                    \<lparr>pWaitSemaphores = [], pWaitDstStageMask = [],
                     pCommandBuffers = [transfer_vk cb],
                     pSignalSemaphores = [semaphore_vk sem]\<rparr>
                    None (queue_result env)])"
proof -
  let ?st0 = "\<lparr>tl_offset = 0,
              tl_copyRegions = replicate (dynamicDataTotalRegions s) zero_region,
              tl_pRegions = 0,
              tl_commands = recorded cb,
              tl_events = evs\<rparr>"
  from assms(1) obtain m st where
    loop: "transfer_buffers (buffer_data frame) (buffer_vk stg) (dynamicDataMap s) ?st0 = Some (m, st)"
    by (auto simp: transfer_regions_def split: option.splits)
  note l = transfer_buffers_Some [OF loop]
  have m: "m = pruned_registry (dynamicDataMap s)" using l by simp
  have bound: "length PR \<le> dynamicDataTotalRegions s"
    using l by (cases "PR = []") (auto simp: PR_def)
  have regs: "tl_copyRegions st =
      map copy_region PR @ replicate (dynamicDataTotalRegions s - length PR) zero_region"
    using l by (simp add: PR_def)
  have ev: "tl_events st = evs @ map (copy_call (buffer_data frame)) PR"
    using l by (simp add: PR_def)
  have pR: "tl_pRegions st = length PR" using l by (simp add: PR_def)
  have cm: "PR = [] \<longrightarrow> tl_commands st = recorded cb" using l by (auto simp: PR_def)
  have nn: "PR \<noteq> [] \<longrightarrow> buffer_data frame \<noteq> None" using l by (auto simp: PR_def)
  show ?thesis
  proof (cases "PR = []")
    case True
    with assms(1) loop pR have "r = VK_SUCCESS" "evs' = tl_events st"
      "s' = s\<lparr>frames := (frames s)[i := frame\<lparr>copyRegions := tl_copyRegions st,
                 transferCommandBuffer := Some (cb\<lparr>recorded := tl_commands st\<rparr>)\<rparr>],
               dynamicDataMap := m\<rparr>"
      by (auto simp: transfer_regions_def Let_def)
    then show ?thesis
      using True m regs ev cm bound by (intro exI [of _ "tl_commands st"]) simp
  next
    case False
    with assms(1) loop pR obtain tq where tq: "transferQueue s = Some tq"
      by (auto simp: transfer_regions_def Let_def split: option.splits)
    with False assms(1) loop pR have "r = queue_result env"
      "evs' = tl_events st @ [QueueSubmit tq
                    \<lparr>pWaitSemaphores = [], pWaitDstStageMask = [],
                     pCommandBuffers = [transfer_vk cb],
                     pSignalSemaphores = [semaphore_vk sem]\<rparr>
                    None (queue_result env)]"
      "s' = s\<lparr>frames := (frames s)[i := frame\<lparr>copyRegions := tl_copyRegions st,
                 transferCommandBuffer := Some (cb\<lparr>recorded := tl_commands st\<rparr>)\<rparr>],
               dynamicDataMap := m,
               currentTransferCompletedSemaphore :=
                 (if queue_result env = VK_SUCCESS then Some sem
                  else currentTransferCompletedSemaphore s)\<rparr>"
      by (auto simp: transfer_regions_def Let_def split: if_splits)
    then show ?thesis
      using False m regs ev bound tq nn by (intro exI [of _ "tl_commands st"]) simp
  qed
qed

section \<open>The walk over the registry\<close>

lemma transferDynamicData_skip:
  "\<not> (index s 0 < length (frames s) \<and> dynamicDataMap s \<noteq> []) \<Longrightarrow>
   transferDynamicData env s = Some (VK_SUCCESS, s, [])"
  by (auto simp: transferDynamicData_def Let_def)

lemma transferDynamicData_walk:
  assumes t: "transferDynamicData env s = Some (r, s', evs)"
    and w: "reaches_walk env s"
  defines "PR \<equiv> staged_registry (dynamicDataMap s) 0"
    and "frame \<equiv> frames s ! index s 0"
  shows "\<exists>cb cmds sem stg bd.
      s' = s\<lparr>frames := (frames s)[index s 0 := frame\<lparr>
                 transferCompledSemaphore := Some sem,
                 staging := Some stg,
                 buffer_data := bd,
                 copyRegions :=
                   map copy_region PR @ replicate (dynamicDataTotalRegions s - length PR) zero_region,
                 transferCommandBuffer := Some (cb\<lparr>recorded := cmds\<rparr>)\<rparr>],
               dynamicDataMap := pruned_registry (dynamicDataMap s),
               currentTransferCompletedSemaphore :=
                 (if PR \<noteq> [] \<and> queue_result env = VK_SUCCESS then Some sem
                  else currentTransferCompletedSemaphore s)\<rparr>
    \<and> stg = (if needs_staging s
             then \<lparr>buffer_vk = created_staging env, buffer_size = dynamicDataTotalSize s\<rparr>
             else the (staging frame))
    \<and> bd = (if needs_staging s then Some (mapped_address env) else buffer_data frame)
    \<and> sem = (case transferCompledSemaphore frame of
               None \<Rightarrow> \<lparr>semaphore_vk = created_semaphore env,
                         pipelineStageFlags = VK_PIPELINE_STAGE_TRANSFER_BIT\<rparr>
             | Some x \<Rightarrow> x)
    \<and> transfer_vk cb = (case transferCommandBuffer frame of
               None \<Rightarrow> allocated_commandBuffer env | Some c \<Rightarrow> transfer_vk c)
    \<and> (PR = [] \<longrightarrow> cmds = [])
    \<and> length PR \<le> dynamicDataTotalRegions s
    \<and> r = (if PR = [] then VK_SUCCESS else queue_result env)
    \<and> (PR \<noteq> [] \<longrightarrow> transferQueue s \<noteq> None)
    \<and> (PR \<noteq> [] \<longrightarrow> bd \<noteq> None)
    \<and> evs = (if needs_staging s then [MapMemory (dynamicDataTotalSize s) VK_SUCCESS] else [])
         @ map (copy_call bd) PR
         @ (if PR = [] then []
            else [QueueSubmit (the (transferQueue s))
                    \<lparr>pWaitSemaphores = [], pWaitDstStageMask = [],
                     pCommandBuffers = [transfer_vk cb],
                     pSignalSemaphores = [semaphore_vk sem]\<rparr>
                    None (queue_result env)])"
proof -
  from w have i: "index s 0 < length (frames s)" and ne: "dynamicDataMap s \<noteq> []"
    and mp: "needs_staging s \<longrightarrow> map_result env = VK_SUCCESS"
    by (simp_all add: reaches_walk_def)
  define sem where "sem = (case transferCompledSemaphore frame of
               None \<Rightarrow> \<lparr>semaphore_vk = created_semaphore env,
                         pipelineStageFlags = VK_PIPELINE_STAGE_TRANSFER_BIT\<rparr>
             | Some x \<Rightarrow> x)"
  from t i ne obtain cb where
    cb: "(case transferCommandBuffer frame of
            None \<Rightarrow> (case transferQueue s of None \<Rightarrow> None
                      | Some tq \<Rightarrow> Some \<lparr>transfer_vk = allocated_commandBuffer env, recorded = []\<rparr>)
          | Some c \<Rightarrow> Some (c\<lparr>recorded := []\<rparr>)) = Some cb"
    by (auto simp: transferDynamicData_def Let_def frame_def split: option.splits)
  then have cbv: "transfer_vk cb = (case transferCommandBuffer frame of
               None \<Rightarrow> allocated_commandBuffer env | Some c \<Rightarrow> transfer_vk c)"
    and cbr: "recorded cb = []"
    by (auto split: option.splits)
  define frame1 where "frame1 = frame\<lparr>transferCommandBuffer := Some cb,
                             transferCompledSemaphore := Some sem\<rparr>"
  define stg where "stg = (if needs_staging s
             then \<lparr>buffer_vk = created_staging env, buffer_size = dynamicDataTotalSize s\<rparr>
             else the (staging frame))"
  define bd where "bd = (if needs_staging s then Some (mapped_address env) else buffer_data frame)"
  define frame2 where "frame2 = frame1\<lparr>staging := Some stg, buffer_data := bd\<rparr>"
  define ev0 where "ev0 = (if needs_staging s then [MapMemory (dynamicDataTotalSize s) VK_SUCCESS] else [])"
  have tr: "transfer_regions env s (index s 0) frame2 cb sem stg ev0 = Some (r, s', evs)"
  proof (cases "needs_staging s")
    case True
    with mp have m0: "map_result env = VK_SUCCESS" by simp
    from True have "staging frame = None \<or>
        (\<exists>b. staging frame = Some b \<and> buffer_size b < dynamicDataTotalSize s)"
      by (auto simp: needs_staging_def frame_def split: option.splits)
    then have "transferDynamicData env s =
        allocate_staging env s (index s 0) frame1 cb sem"
      using i ne cb
      by (auto simp: transferDynamicData_def Let_def frame_def [symmetric] frame1_def sem_def)
    then show ?thesis
      using t True m0
      by (simp add: allocate_staging_def Let_def frame2_def stg_def bd_def ev0_def)
  next
    case False
    then obtain b where b: "staging frame = Some b" "\<not> buffer_size b < dynamicDataTotalSize s"
      by (auto simp: needs_staging_def frame_def split: option.splits)
    then have "transferDynamicData env s =
        transfer_regions env s (index s 0) frame1 cb sem b []"
      using i ne cb
      by (auto simp: transferDynamicData_def Let_def frame_def [symmetric] frame1_def sem_def)
    moreover have "frame2 = frame1" using False b by (simp add: frame2_def frame1_def stg_def bd_def)
    ultimately show ?thesis
      using t False b by (simp add: stg_def ev0_def)
  qed
  from transfer_regions_Some [OF tr] obtain cmds where
    s': "s' = s\<lparr>frames := (frames s)[index s 0 := frame2\<lparr>copyRegions :=
                   map copy_region PR @ replicate (dynamicDataTotalRegions s - length PR) zero_region,
                 transferCommandBuffer := Some (cb\<lparr>recorded := cmds\<rparr>)\<rparr>],
             dynamicDataMap := pruned_registry (dynamicDataMap s),
             currentTransferCompletedSemaphore :=
               (if PR \<noteq> [] \<and> queue_result env = VK_SUCCESS then Some sem
                else currentTransferCompletedSemaphore s)\<rparr>"
    and rest: "PR = [] \<longrightarrow> cmds = recorded cb"
      "length PR \<le> dynamicDataTotalRegions s"
      "r = (if PR = [] then VK_SUCCESS else queue_result env)"
      "PR \<noteq> [] \<longrightarrow> transferQueue s \<noteq> None"
      "PR \<noteq> [] \<longrightarrow> buffer_data frame2 \<noteq> None"
      "evs = ev0 @ map (copy_call (buffer_data frame2)) PR
         @ (if PR = [] then []
            else [QueueSubmit (the (transferQueue s))
                    \<lparr>pWaitSemaphores = [], pWaitDstStageMask = [],
                     pCommandBuffers = [transfer_vk cb],
                     pSignalSemaphores = [semaphore_vk sem]\<rparr>
                    None (queue_result env)])"
    unfolding PR_def by blast
  have bd2: "buffer_data frame2 = bd" by (simp add: frame2_def)
  show ?thesis
    apply (rule exI [of _ cb], rule exI [of _ cmds], rule exI [of _ sem],
        rule exI [of _ stg], rule exI [of _ bd])
    using s' rest cbv cbr bd2
    by (simp add: frame2_def frame1_def stg_def bd_def sem_def ev0_def)
qed

lemma transfer_regions_defined:
  assumes "length (staged_registry (dynamicDataMap s) 0) \<le> dynamicDataTotalRegions s"
    and "staged_registry (dynamicDataMap s) 0 \<noteq> [] \<longrightarrow> transferQueue s \<noteq> None"
    and "staged_registry (dynamicDataMap s) 0 \<noteq> [] \<longrightarrow> buffer_data frame \<noteq> None"
  shows "\<exists>x. transfer_regions env s i frame cb sem stg evs = Some x"
proof -
  let ?st0 = "\<lparr>tl_offset = 0,
              tl_copyRegions = replicate (dynamicDataTotalRegions s) zero_region,
              tl_pRegions = 0,
              tl_commands = recorded cb,
              tl_events = evs\<rparr>"
  have "\<exists>x. transfer_buffers (buffer_data frame) (buffer_vk stg) (dynamicDataMap s) ?st0 = Some x"
    using assms(1,3) by (intro transfer_buffers_defined) simp_all
  then obtain m st where
    loop: "transfer_buffers (buffer_data frame) (buffer_vk stg) (dynamicDataMap s) ?st0 = Some (m, st)"
    by (metis surj_pair)
  from transfer_buffers_Some [OF loop]
  have "tl_pRegions st = length (staged_registry (dynamicDataMap s) 0)" by simp
  with loop assms(2) show ?thesis
    by (auto simp: transfer_regions_def Let_def split: option.splits)
qed

lemma transferDynamicData_defined:
  assumes "walk_defined s"
  shows "\<exists>x. transferDynamicData env s = Some x"
proof (cases "index s 0 < length (frames s) \<and> dynamicDataMap s \<noteq> []")
  case False
  then show ?thesis by (simp add: transferDynamicData_skip)
next
  case True
  from assms have
    cb: "transferCommandBuffer (frames s ! index s 0) = None \<longrightarrow> transferQueue s \<noteq> None"
    and n: "length (staged_registry (dynamicDataMap s) 0) \<le> dynamicDataTotalRegions s"
    and q: "staged_registry (dynamicDataMap s) 0 \<noteq> [] \<longrightarrow> transferQueue s \<noteq> None"
    and b: "staged_registry (dynamicDataMap s) 0 \<noteq> [] \<longrightarrow>
            needs_staging s \<or> buffer_data (frames s ! index s 0) \<noteq> None"
    by (simp_all add: walk_defined_def)
  note d = transfer_regions_defined [OF n q]
  have a: "\<exists>x. allocate_staging env s i frame c sem = Some x" for i frame c sem
    using d by (simp add: allocate_staging_def Let_def)
  show ?thesis
  proof (cases "needs_staging s")
    case ns: True
    then have "staging (frames s ! index s 0) = None \<or>
        (\<exists>b. staging (frames s ! index s 0) = Some b \<and> buffer_size b < dynamicDataTotalSize s)"
      by (auto simp: needs_staging_def split: option.splits)
    then show ?thesis
      using True cb a
      by (auto simp: transferDynamicData_def Let_def split: option.splits)
  next
    case ns: False
    then obtain stg where stg: "staging (frames s ! index s 0) = Some stg"
      "\<not> buffer_size stg < dynamicDataTotalSize s"
      by (auto simp: needs_staging_def split: option.splits)
    from b ns have bd: "staged_registry (dynamicDataMap s) 0 \<noteq> [] \<longrightarrow>
        buffer_data (frames s ! index s 0) \<noteq> None" by simp
    have "\<exists>x. transfer_regions env s i frame c sem stg0 evs = Some x"
      if "buffer_data frame = buffer_data (frames s ! index s 0)" for i frame c sem stg0 evs
      using d [of frame] bd that by simp
    then show ?thesis
      using True cb stg
      by (auto simp: transferDynamicData_def Let_def split: option.splits)
  qed
qed

section \<open>Failure of the mapping and of the submission\<close>

lemma transferDynamicData_map_failure:
  assumes t: "transferDynamicData env s = Some (r, s', evs)"
    and i: "index s 0 < length (frames s)" and ne: "dynamicDataMap s \<noteq> []"
    and n: "needs_staging s" and f: "map_result env \<noteq> VK_SUCCESS"
  shows "r = map_result env"
    and "evs = [MapMemory (dynamicDataTotalSize s) (map_result env)]"
    and "\<exists>frame'. s' = s\<lparr>frames := (frames s)[index s 0 := frame']\<rparr>
          \<and> staging frame' =
              Some \<lparr>buffer_vk = created_staging env, buffer_size = dynamicDataTotalSize s\<rparr>"
proof -
  let ?frame = "frames s ! index s 0"
  from t i ne obtain cb where
    cb: "(case transferCommandBuffer ?frame of
            None \<Rightarrow> (case transferQueue s of None \<Rightarrow> None
                      | Some tq \<Rightarrow> Some \<lparr>transfer_vk = allocated_commandBuffer env, recorded = []\<rparr>)
          | Some c \<Rightarrow> Some (c\<lparr>recorded := []\<rparr>)) = Some cb"
    by (auto simp: transferDynamicData_def Let_def split: option.splits)
  define sem where "sem = (case transferCompledSemaphore ?frame of
               None \<Rightarrow> \<lparr>semaphore_vk = created_semaphore env,
                         pipelineStageFlags = VK_PIPELINE_STAGE_TRANSFER_BIT\<rparr>
             | Some x \<Rightarrow> x)"
  define frame1 where "frame1 = ?frame\<lparr>transferCommandBuffer := Some cb,
                             transferCompledSemaphore := Some sem\<rparr>"
  from n have "staging ?frame = None \<or>
      (\<exists>b. staging ?frame = Some b \<and> buffer_size b < dynamicDataTotalSize s)"
    by (auto simp: needs_staging_def split: option.splits)
  then have eq: "transferDynamicData env s = allocate_staging env s (index s 0) frame1 cb sem"
    using i ne cb
    by (auto simp: transferDynamicData_def Let_def frame1_def sem_def)
  have al: "allocate_staging env s (index s 0) frame1 cb sem = Some (map_result env,
        s\<lparr>frames := (frames s)[index s 0 := frame1\<lparr>staging :=
             Some \<lparr>buffer_vk = created_staging env, buffer_size = dynamicDataTotalSize s\<rparr>,
             buffer_data := None\<rparr>]\<rparr>,
        [MapMemory (dynamicDataTotalSize s) (map_result env)])"
    using f by (simp add: allocate_staging_def Let_def)
  have e:
    "(r, s', evs) = (map_result env,
        s\<lparr>frames := (frames s)[index s 0 := frame1\<lparr>staging :=
             Some \<lparr>buffer_vk = created_staging env, buffer_size = dynamicDataTotalSize s\<rparr>,
             buffer_data := None\<rparr>]\<rparr>,
        [MapMemory (dynamicDataTotalSize s) (map_result env)])"
    using t eq al by (metis option.inject)
  from e show "r = map_result env" by simp
  from e show "evs = [MapMemory (dynamicDataTotalSize s) (map_result env)]" by simp
  from e have "s' = s\<lparr>frames := (frames s)[index s 0 := frame1\<lparr>staging :=
             Some \<lparr>buffer_vk = created_staging env, buffer_size = dynamicDataTotalSize s\<rparr>,
             buffer_data := None\<rparr>]\<rparr>" by simp
  then show "\<exists>frame'. s' = s\<lparr>frames := (frames s)[index s 0 := frame']\<rparr>
          \<and> staging frame' =
              Some \<lparr>buffer_vk = created_staging env, buffer_size = dynamicDataTotalSize s\<rparr>"
    by (intro exI [of _ "frame1\<lparr>staging :=
             Some \<lparr>buffer_vk = created_staging env, buffer_size = dynamicDataTotalSize s\<rparr>,
             buffer_data := None\<rparr>"]) simp
qed

text \<open>The three ways a call can go.\<close>

lemma transferDynamicData_cases:
  obtains (skip) "\<not> (index s 0 < length (frames s) \<and> dynamicDataMap s \<noteq> [])"
  | (map_failure) "index s 0 < length (frames s)" "dynamicDataMap s \<noteq> []"
      "needs_staging s" "map_result env \<noteq> VK_SUCCESS"
  | (walk) "reaches_walk env s"
  unfolding reaches_walk_def by blast

lemma copy_call_not_submit [simp]:
  "QueueSubmit q info f x \<notin> copy_call bd ` A" "MapMemory sz mr \<notin> copy_call bd ` A"
  by (auto simp: copy_call_def)

text \<open>
  Claim C4. If during \<^verbatim>\<open>transferDynamicData\<close> the mapping of the staging memory returns a
  result code other than \<^verbatim>\<open>VK_SUCCESS\<close>, the call returns that code, leaves
  \<open>currentTransferCompletedSemaphore\<close> as it was and makes no queue submission. If the
  submission to the transfer queue returns such a code, the call returns that code and leaves
  \<open>currentTransferCompletedSemaphore\<close> as it was, and the rejected submission is the only one
  it made.
\<close>

theorem transfer_failure_propagates:
  assumes "transferDynamicData env s = Some (r, s', evs)"
  shows "(MapMemory sz mr \<in> set evs \<and> mr \<noteq> VK_SUCCESS \<longrightarrow>
            r = mr
          \<and> currentTransferCompletedSemaphore s' = currentTransferCompletedSemaphore s
          \<and> filter is_QueueSubmit evs = [])
       \<and> (QueueSubmit q info f qr \<in> set evs \<and> qr \<noteq> VK_SUCCESS \<longrightarrow>
            r = qr
          \<and> currentTransferCompletedSemaphore s' = currentTransferCompletedSemaphore s
          \<and> filter is_QueueSubmit evs = [QueueSubmit q info f qr])"
proof (cases rule: transferDynamicData_cases [where s = s and env = env])
  case skip
  with assms have "evs = []" by (simp add: transferDynamicData_skip)
  then show ?thesis by simp
next
  case map_failure
  note m = transferDynamicData_map_failure [OF assms map_failure]
  from m(3) have "currentTransferCompletedSemaphore s' = currentTransferCompletedSemaphore s"
    by auto
  with m(1,2) show ?thesis by auto
next
  case walk
  from transferDynamicData_walk [OF assms walk] obtain cb cmds sem stg bd where
    s': "s' = s\<lparr>frames := (frames s)[index s 0 := (frames s ! index s 0)\<lparr>
                 transferCompledSemaphore := Some sem,
                 staging := Some stg,
                 buffer_data := bd,
                 copyRegions :=
                   map copy_region (staged_registry (dynamicDataMap s) 0)
                   @ replicate (dynamicDataTotalRegions s - length (staged_registry (dynamicDataMap s) 0)) zero_region,
                 transferCommandBuffer := Some (cb\<lparr>recorded := cmds\<rparr>)\<rparr>],
               dynamicDataMap := pruned_registry (dynamicDataMap s),
               currentTransferCompletedSemaphore :=
                 (if staged_registry (dynamicDataMap s) 0 \<noteq> [] \<and> queue_result env = VK_SUCCESS then Some sem
                  else currentTransferCompletedSemaphore s)\<rparr>"
    and r: "r = (if staged_registry (dynamicDataMap s) 0 = [] then VK_SUCCESS else queue_result env)"
    and evs: "evs = (if needs_staging s then [MapMemory (dynamicDataTotalSize s) VK_SUCCESS] else [])
         @ map (copy_call bd) (staged_registry (dynamicDataMap s) 0)
         @ (if staged_registry (dynamicDataMap s) 0 = [] then []
            else [QueueSubmit (the (transferQueue s))
                    \<lparr>pWaitSemaphores = [], pWaitDstStageMask = [],
                     pCommandBuffers = [transfer_vk cb],
                     pSignalSemaphores = [semaphore_vk sem]\<rparr>
                    None (queue_result env)])"
    by blast
  have nm: "filter is_QueueSubmit (map (copy_call bd) P) = []" for P
    by (induction P) (auto simp: copy_call_def)
  have a: "\<not> (MapMemory sz mr \<in> set evs \<and> mr \<noteq> VK_SUCCESS)"
    unfolding evs by (auto split: if_splits)
  have b: "QueueSubmit q info f qr \<in> set evs \<and> qr \<noteq> VK_SUCCESS \<longrightarrow>
            r = qr
          \<and> currentTransferCompletedSemaphore s' = currentTransferCompletedSemaphore s
          \<and> filter is_QueueSubmit evs = [QueueSubmit q info f qr]"
    unfolding evs r s' by (auto simp: nm split: if_splits)
  from a b show ?thesis by blast
qed

section \<open>Pruning of entries without an external owner\<close>

lemma mark_copied_simps [simp]:
  "referenceCount (mark_copied bi) = referenceCount bi"
  "data (mark_copied bi) = data bi"
  "copiedModifiedCount (mark_copied bi) = modifiedCount (data bi)"
  "offset (mark_copied bi) = offset bi"
  "range_size (mark_copied bi) = range_size bi"
  by (simp_all add: mark_copied_def)

lemma mark_copied_idem [simp]: "mark_copied (mark_copied bi) = mark_copied bi"
  by (simp add: mark_copied_def)

lemma live_entries_owned:
  "(k, bi) \<in> set (live_entries es) \<Longrightarrow>
     referenceCount bi \<noteq> 1 \<and> copiedModifiedCount bi = modifiedCount (data bi)"
  by (auto simp: live_entries_def)

lemma staged_entries_settled:
  "\<forall>(k, bi) \<in> set es.
      referenceCount bi = 1 \<or> copiedModifiedCount bi = modifiedCount (data bi) \<Longrightarrow>
   staged_entries es offs = []"
  by (induction es arbitrary: offs) auto

lemma staged_entries_live [simp]: "staged_entries (live_entries es) offs = []"
  by (rule staged_entries_settled) (auto dest: live_entries_owned)

lemma live_entries_idem [simp]: "live_entries (live_entries es) = live_entries es"
  by (induction es) (auto simp: live_entries_Cons)

lemma staged_registry_pruned [simp]: "staged_registry (pruned_registry m) offs = []"
  by (induction m arbitrary: offs) auto

lemma pruned_registry_idem [simp]: "pruned_registry (pruned_registry m) = pruned_registry m"
  by (induction m) auto

lemma pruned_registry_mem:
  "(b, es) \<in> set (pruned_registry m) \<Longrightarrow> es \<noteq> [] \<and> es \<in> range live_entries"
  by (induction m) (auto split: if_splits)

lemma pruned_registry_entries:
  assumes "(b, es) \<in> set (pruned_registry m)"
  shows "es \<noteq> [] \<and> (\<forall>(k, bi) \<in> set es. referenceCount bi \<noteq> 1)"
proof -
  from pruned_registry_mem [OF assms] obtain es0 where
    "es \<noteq> []" "es = live_entries es0" by blast
  then show ?thesis using live_entries_owned by blast
qed

lemma pruned_registry_keys:
  "map fst (pruned_registry m) = map fst (filter (\<lambda>(b, es). live_entries es \<noteq> []) m)"
  by (induction m) auto

lemma staged_entries_owned:
  "(offs', bi) \<in> set (staged_entries es offs) \<Longrightarrow> referenceCount bi \<noteq> 1"
  by (induction es arbitrary: offs) (auto split: if_splits)

lemma staged_registry_owned:
  "(offs', bi) \<in> set (staged_registry m offs) \<Longrightarrow> referenceCount bi \<noteq> 1"
proof (induction m arbitrary: offs)
  case Nil
  then show ?case by simp
next
  case (Cons be m)
  then show ?case using staged_entries_owned by (cases be) fastforce
qed

lemma filter_Memcpy_copy_calls [simp]:
  "filter is_Memcpy (map (copy_call bd) P) = map (copy_call bd) P"
  by (induction P) (auto simp: copy_call_def)

lemma walk_result:
  assumes "transferDynamicData env s = Some (r, s', evs)" and "reaches_walk env s"
  shows "dynamicDataMap s' = pruned_registry (dynamicDataMap s)"
    and "copyRegions (frames s' ! index s 0) =
       map copy_region (staged_registry (dynamicDataMap s) 0)
       @ replicate (dynamicDataTotalRegions s - length (staged_registry (dynamicDataMap s) 0)) zero_region"
    and "\<exists>bd. filter is_Memcpy evs = map (copy_call bd) (staged_registry (dynamicDataMap s) 0)
          \<and> bd = buffer_data (frames s' ! index s 0)"
    and "indices s' = indices s" and "length (frames s') = length (frames s)"
    and "dynamicDataTotalSize s' = dynamicDataTotalSize s"
    and "dynamicDataTotalRegions s' = dynamicDataTotalRegions s"
    and "transferQueue s' = transferQueue s"
    and "j \<noteq> index s 0 \<Longrightarrow> frames s' ! j = frames s ! j"
    and "\<exists>stg. staging (frames s' ! index s 0) = Some stg
           \<and> \<not> buffer_size stg < dynamicDataTotalSize s
           \<and> stg = (if needs_staging s
                then \<lparr>buffer_vk = created_staging env, buffer_size = dynamicDataTotalSize s\<rparr>
                else the (staging (frames s ! index s 0)))"
    and "transferCommandBuffer (frames s' ! index s 0) \<noteq> None"
    and "staged_registry (dynamicDataMap s) 0 = [] \<Longrightarrow>
           r = VK_SUCCESS \<and> filter (\<lambda>e. \<not> is_MapMemory e) evs = []
           \<and> currentTransferCompletedSemaphore s' = currentTransferCompletedSemaphore s
           \<and> (\<exists>cb. transferCommandBuffer (frames s' ! index s 0) = Some cb \<and> recorded cb = [])"
    and "\<not> needs_staging s \<Longrightarrow> filter is_MapMemory evs = []"
    and "buffer_data (frames s' ! index s 0) =
           (if needs_staging s then Some (mapped_address env)
            else buffer_data (frames s ! index s 0))"
proof -
  let ?PR = "staged_registry (dynamicDataMap s) 0"
  from assms(2) have i: "index s 0 < length (frames s)" by (simp add: reaches_walk_def)
  from transferDynamicData_walk [OF assms] obtain cb cmds sem stg bd where
    s': "s' = s\<lparr>frames := (frames s)[index s 0 := (frames s ! index s 0)\<lparr>
                 transferCompledSemaphore := Some sem,
                 staging := Some stg,
                 buffer_data := bd,
                 copyRegions :=
                   map copy_region ?PR @ replicate (dynamicDataTotalRegions s - length ?PR) zero_region,
                 transferCommandBuffer := Some (cb\<lparr>recorded := cmds\<rparr>)\<rparr>],
               dynamicDataMap := pruned_registry (dynamicDataMap s),
               currentTransferCompletedSemaphore :=
                 (if ?PR \<noteq> [] \<and> queue_result env = VK_SUCCESS then Some sem
                  else currentTransferCompletedSemaphore s)\<rparr>"
    and stg: "stg = (if needs_staging s
             then \<lparr>buffer_vk = created_staging env, buffer_size = dynamicDataTotalSize s\<rparr>
             else the (staging (frames s ! index s 0)))"
    and bd: "bd = (if needs_staging s then Some (mapped_address env)
                   else buffer_data (frames s ! index s 0))"
    and cmds: "?PR = [] \<longrightarrow> cmds = []"
    and r: "r = (if ?PR = [] then VK_SUCCESS else queue_result env)"
    and evs: "evs = (if needs_staging s then [MapMemory (dynamicDataTotalSize s) VK_SUCCESS] else [])
         @ map (copy_call bd) ?PR
         @ (if ?PR = [] then []
            else [QueueSubmit (the (transferQueue s))
                    \<lparr>pWaitSemaphores = [], pWaitDstStageMask = [],
                     pCommandBuffers = [transfer_vk cb],
                     pSignalSemaphores = [semaphore_vk sem]\<rparr>
                    None (queue_result env)])"
    by blast
  show "dynamicDataMap s' = pruned_registry (dynamicDataMap s)" by (simp add: s')
  show "copyRegions (frames s' ! index s 0) =
       map copy_region ?PR @ replicate (dynamicDataTotalRegions s - length ?PR) zero_region"
    using i by (simp add: s')
  show "\<exists>bd. filter is_Memcpy evs = map (copy_call bd) ?PR
          \<and> bd = buffer_data (frames s' ! index s 0)"
    using i by (simp add: s' evs)
  show "indices s' = indices s" "length (frames s') = length (frames s)"
    "dynamicDataTotalSize s' = dynamicDataTotalSize s"
    "dynamicDataTotalRegions s' = dynamicDataTotalRegions s"
    "transferQueue s' = transferQueue s"
    by (simp_all add: s')
  show "j \<noteq> index s 0 \<Longrightarrow> frames s' ! j = frames s ! j" by (simp add: s')
  have "\<not> buffer_size stg < dynamicDataTotalSize s"
    unfolding stg by (auto simp: needs_staging_def split: option.splits)
  then show "\<exists>stg. staging (frames s' ! index s 0) = Some stg
           \<and> \<not> buffer_size stg < dynamicDataTotalSize s
           \<and> stg = (if needs_staging s
                then \<lparr>buffer_vk = created_staging env, buffer_size = dynamicDataTotalSize s\<rparr>
                else the (staging (frames s ! index s 0)))"
    using i stg by (simp add: s')
  show "transferCommandBuffer (frames s' ! index s 0) \<noteq> None" using i by (simp add: s')
  show "?PR = [] \<Longrightarrow>
           r = VK_SUCCESS \<and> filter (\<lambda>e. \<not> is_MapMemory e) evs = []
           \<and> currentTransferCompletedSemaphore s' = currentTransferCompletedSemaphore s
           \<and> (\<exists>cb. transferCommandBuffer (frames s' ! index s 0) = Some cb \<and> recorded cb = [])"
    using i cmds by (simp add: s' r evs)
  show "\<not> needs_staging s \<Longrightarrow> filter is_MapMemory evs = []"
    by (auto simp: evs copy_call_def filter_empty_conv)
  show "buffer_data (frames s' ! index s 0) =
           (if needs_staging s then Some (mapped_address env)
            else buffer_data (frames s ! index s 0))"
    using i bd by (simp add: s')
qed

lemma not_walk_result:
  assumes t: "transferDynamicData env s = Some (r, s', evs)" and n: "\<not> reaches_walk env s"
  shows "dynamicDataMap s' = dynamicDataMap s" and "filter is_Memcpy evs = []"
proof -
  have "dynamicDataMap s' = dynamicDataMap s \<and> filter is_Memcpy evs = []"
  proof (cases rule: transferDynamicData_cases [where s = s and env = env])
    case skip
    with t show ?thesis by (simp add: transferDynamicData_skip)
  next
    case map_failure
    from transferDynamicData_map_failure [OF t map_failure] show ?thesis by auto
  next
    case walk
    with n show ?thesis by simp
  qed
  then show "dynamicDataMap s' = dynamicDataMap s" and "filter is_Memcpy evs = []" by simp_all
qed

text \<open>
  Claim C6, as amended. A call of \<^verbatim>\<open>transferDynamicData\<close> returns whenever it makes no undefined
  operation. If it returns and has reached the walk over the registry (there is a current
  slot, the registry is not empty, and the staging memory, if this call had to allocate it,
  was mapped with success), it leaves exactly the entries with an external owner registered,
  in buffers that still have an entry: an entry whose reference count is one is removed, no
  \<^verbatim>\<open>memcpy\<close> and no copy region is made for it (the copies and regions of the call are those of
  the staged entries, none of which has reference count one), and a buffer whose entries are
  all removed is erased from the map. If it returns without reaching the walk, the registry
  is as before and nothing is copied.
\<close>

theorem transfer_prunes_unowned:
  "(walk_defined s \<longrightarrow> transferDynamicData env s \<noteq> None)
   \<and> (\<forall>r s' evs. transferDynamicData env s = Some (r, s', evs) \<longrightarrow>
        (if reaches_walk env s then
           dynamicDataMap s' = pruned_registry (dynamicDataMap s)
         \<and> (\<forall>(b, es) \<in> set (dynamicDataMap s').
               es \<noteq> [] \<and> (\<forall>(k, bi) \<in> set es. referenceCount bi \<noteq> 1))
         \<and> map fst (dynamicDataMap s') =
             map fst (filter (\<lambda>(b, es). live_entries es \<noteq> []) (dynamicDataMap s))
         \<and> filter is_Memcpy evs =
             map (copy_call (buffer_data (frames s' ! index s 0)))
               (staged_registry (dynamicDataMap s) 0)
         \<and> copyRegions (frames s' ! index s 0) =
             map copy_region (staged_registry (dynamicDataMap s) 0)
             @ replicate
                 (dynamicDataTotalRegions s - length (staged_registry (dynamicDataMap s) 0))
                 zero_region
         \<and> (\<forall>b es k bi. (b, es) \<in> set (dynamicDataMap s) \<and> (k, bi) \<in> set es
               \<and> referenceCount bi = 1 \<longrightarrow>
               (\<forall>offs. (offs, bi) \<notin> set (staged_registry (dynamicDataMap s) 0))
             \<and> (\<forall>(b', es') \<in> set (dynamicDataMap s'). (k, bi) \<notin> set es'))
         else dynamicDataMap s' = dynamicDataMap s \<and> filter is_Memcpy evs = []))"
proof (intro conjI allI impI)
  assume "walk_defined s"
  from transferDynamicData_defined [OF this, of env]
  show "transferDynamicData env s \<noteq> None" by auto
next
  fix r s' evs
  assume t: "transferDynamicData env s = Some (r, s', evs)"
  show "if reaches_walk env s then
           dynamicDataMap s' = pruned_registry (dynamicDataMap s)
         \<and> (\<forall>(b, es) \<in> set (dynamicDataMap s').
               es \<noteq> [] \<and> (\<forall>(k, bi) \<in> set es. referenceCount bi \<noteq> 1))
         \<and> map fst (dynamicDataMap s') =
             map fst (filter (\<lambda>(b, es). live_entries es \<noteq> []) (dynamicDataMap s))
         \<and> filter is_Memcpy evs =
             map (copy_call (buffer_data (frames s' ! index s 0)))
               (staged_registry (dynamicDataMap s) 0)
         \<and> copyRegions (frames s' ! index s 0) =
             map copy_region (staged_registry (dynamicDataMap s) 0)
             @ replicate
                 (dynamicDataTotalRegions s - length (staged_registry (dynamicDataMap s) 0))
                 zero_region
         \<and> (\<forall>b es k bi. (b, es) \<in> set (dynamicDataMap s) \<and> (k, bi) \<in> set es
               \<and> referenceCount bi = 1 \<longrightarrow>
               (\<forall>offs. (offs, bi) \<notin> set (staged_registry (dynamicDataMap s) 0))
             \<and> (\<forall>(b', es') \<in> set (dynamicDataMap s'). (k, bi) \<notin> set es'))
         else dynamicDataMap s' = dynamicDataMap s \<and> filter is_Memcpy evs = []"
  proof (cases "reaches_walk env s")
    case False
    with not_walk_result [OF t False] show ?thesis by simp
  next
    case True
    note w = walk_result [OF t True]
    have a: "\<forall>(b, es) \<in> set (dynamicDataMap s').
          es \<noteq> [] \<and> (\<forall>(k, bi) \<in> set es. referenceCount bi \<noteq> 1)"
      unfolding w(1) using pruned_registry_entries by blast
    have b: "\<forall>b es k bi. (b, es) \<in> set (dynamicDataMap s) \<and> (k, bi) \<in> set es
          \<and> referenceCount bi = 1 \<longrightarrow>
          (\<forall>offs. (offs, bi) \<notin> set (staged_registry (dynamicDataMap s) 0))
        \<and> (\<forall>(b', es') \<in> set (dynamicDataMap s'). (k, bi) \<notin> set es')"
      using a staged_registry_owned by fastforce
    from w(3) have c: "filter is_Memcpy evs =
        map (copy_call (buffer_data (frames s' ! index s 0))) (staged_registry (dynamicDataMap s) 0)"
      by blast
    show ?thesis
      using True w(1) a b c w(2) by (simp add: pruned_registry_keys)
  qed
qed

section \<open>A second transfer in succession\<close>

lemma idle_transfer:
  assumes n: "nothing_to_transfer s"
  shows "\<exists>s2. transferDynamicData env s = Some (VK_SUCCESS, s2, [])
      \<and> currentTransferCompletedSemaphore s2 = currentTransferCompletedSemaphore s
      \<and> dynamicDataMap s2 = dynamicDataMap s
      \<and> (if index s 0 < length (frames s) \<and> dynamicDataMap s \<noteq> []
          then copyRegions (frames s2 ! index s 0) =
                 replicate (dynamicDataTotalRegions s) zero_region
             \<and> (\<exists>cb. transferCommandBuffer (frames s2 ! index s 0) = Some cb \<and> recorded cb = [])
          else s2 = s)"
proof (cases "index s 0 < length (frames s) \<and> dynamicDataMap s \<noteq> []")
  case False
  then show ?thesis using transferDynamicData_skip [OF False, of env] by auto
next
  case True
  with n have pr: "staged_registry (dynamicDataMap s) 0 = []"
    and pm: "pruned_registry (dynamicDataMap s) = dynamicDataMap s"
    and ns: "\<not> needs_staging s"
    and cb: "transferCommandBuffer (frames s ! index s 0) \<noteq> None"
    by (simp_all add: nothing_to_transfer_def)
  have "\<exists>x. transferDynamicData env s = Some x"
    using cb by (intro transferDynamicData_defined) (auto simp: pr walk_defined_def)
  then obtain r2 s2 evs2 where t2: "transferDynamicData env s = Some (r2, s2, evs2)"
    by (metis prod_cases3)
  have rw: "reaches_walk env s" using True ns by (simp add: reaches_walk_def)
  note w2 = walk_result [OF t2 rw]
  from w2(12) [OF pr] w2(13) [OF ns]
  have r2: "r2 = VK_SUCCESS" and e2: "evs2 = []"
    and c2: "currentTransferCompletedSemaphore s2 = currentTransferCompletedSemaphore s"
    and k2: "\<exists>cb. transferCommandBuffer (frames s2 ! index s 0) = Some cb \<and> recorded cb = []"
    by (auto simp: filter_empty_conv)
  have m2: "dynamicDataMap s2 = dynamicDataMap s" by (simp add: w2(1) pm)
  have g2: "copyRegions (frames s2 ! index s 0) =
                 replicate (dynamicDataTotalRegions s) zero_region"
    using w2(2) by (simp add: pr)
  show ?thesis
    using t2 r2 e2 c2 k2 m2 g2 True by simp
qed

lemma nothing_to_transfer_after:
  assumes t1: "transferDynamicData env1 s = Some (r1, s1, evs1)"
    and ok: "\<forall>sz mr. MapMemory sz mr \<in> set evs1 \<longrightarrow> mr = VK_SUCCESS"
  shows "nothing_to_transfer s1"
proof (cases rule: transferDynamicData_cases [where s = s and env = env1])
  case skip
  with t1 have "s1 = s" by (simp add: transferDynamicData_skip)
  with skip show ?thesis by (auto simp: nothing_to_transfer_def)
next
  case map_failure
  from transferDynamicData_map_failure [OF t1 map_failure] ok map_failure(4)
  show ?thesis by auto
next
  case walk
  note w = walk_result [OF t1 walk]
  from walk have i: "index s 0 < length (frames s)" by (simp add: reaches_walk_def)
  have ix: "index s1 0 = index s 0" using w(4) by (simp add: index_def)
  have ns: "\<not> needs_staging s1"
    using w(10) by (auto simp: needs_staging_def ix w(6))
  have cb: "transferCommandBuffer (frames s1 ! index s1 0) \<noteq> None"
    using w(11) by (simp add: ix)
  show ?thesis
    using ns cb by (simp add: nothing_to_transfer_def w(1))
qed

lemma second_transfer_idle:
  assumes t1: "transferDynamicData env1 s = Some (r1, s1, evs1)"
    and ok: "\<forall>sz mr. MapMemory sz mr \<in> set evs1 \<longrightarrow> mr = VK_SUCCESS"
  shows "\<exists>s2. transfer_twice env1 env2 s = Some (VK_SUCCESS, s2, [])
      \<and> transferDynamicData env2 s1 = Some (VK_SUCCESS, s2, [])
      \<and> currentTransferCompletedSemaphore s2 = currentTransferCompletedSemaphore s1
      \<and> dynamicDataMap s2 = dynamicDataMap s1
      \<and> (if index s1 0 < length (frames s1) \<and> dynamicDataMap s1 \<noteq> []
          then copyRegions (frames s2 ! index s1 0) =
                 replicate (dynamicDataTotalRegions s1) zero_region
             \<and> (\<exists>cb. transferCommandBuffer (frames s2 ! index s1 0) = Some cb \<and> recorded cb = [])
          else s2 = s1)"
proof -
  have tw: "transfer_twice env1 env2 s = transferDynamicData env2 s1"
    using t1 by (simp add: transfer_twice_def)
  from idle_transfer [OF nothing_to_transfer_after [OF t1 ok], of env2]
  show ?thesis unfolding tw by blast
qed

lemma start_defined:
  "index s 0 < length (frames s) \<Longrightarrow> \<exists>x. start wait_result s = Some x"
proof -
  assume "index s 0 < length (frames s)"
  then have "fence (s\<lparr>currentTransferCompletedSemaphore := None\<rparr>) 0 \<noteq> None"
    by (auto simp: fence_def index_def Let_def split: if_splits)
  then show ?thesis
    by (auto simp: start_def Let_def)
qed

lemma start_keeps_registry:
  assumes "start wait_result s = Some (r, s', evs)"
  shows "currentTransferCompletedSemaphore s' = None"
    and "dynamicDataMap s' = dynamicDataMap s"
    and "nothing_to_transfer s \<Longrightarrow> nothing_to_transfer s'"
proof -
  from assms obtain fr where
    s': "s' = s\<lparr>currentTransferCompletedSemaphore := None\<rparr>
         \<or> s' = s\<lparr>currentTransferCompletedSemaphore := None,
                  frames := (frames s)[index s 0 := (frames s ! index s 0)\<lparr>frame_fence := fr\<rparr>]\<rparr>"
    by (auto simp: start_def Let_def set_fence_def index_def split: option.splits if_splits)
  then show "currentTransferCompletedSemaphore s' = None"
    and "dynamicDataMap s' = dynamicDataMap s" by auto
  have ix: "index s' 0 = index s 0" using s' by (auto simp: index_def)
  have len: "length (frames s') = length (frames s)" using s' by auto
  have fields: "staging (frames s' ! index s 0) = staging (frames s ! index s 0)"
    "transferCommandBuffer (frames s' ! index s 0) = transferCommandBuffer (frames s ! index s 0)"
    if "index s 0 < length (frames s)"
    using s' that by auto
  have tot: "dynamicDataTotalSize s' = dynamicDataTotalSize s" using s' by auto
  have m: "dynamicDataMap s' = dynamicDataMap s" using s' by auto
  have ns: "needs_staging s' = needs_staging s" if "index s 0 < length (frames s)"
    using fields(1) [OF that] by (simp add: needs_staging_def ix tot split: option.splits)
  show "nothing_to_transfer s'" if "nothing_to_transfer s"
    using that fields(2) ns
    by (auto simp: nothing_to_transfer_def ix len m)
qed


text \<open>
  Claim C3, as amended. After a call of \<^verbatim>\<open>transferDynamicData\<close> that did not fail at mapping
  the staging memory, a second call in succession returns \<^verbatim>\<open>VK_SUCCESS\<close> and makes no call at
  all: no byte is copied and nothing is submitted. It writes no copy region and records no
  copy command, it leaves the registry as it is, and it leaves
  \<open>currentTransferCompletedSemaphore\<close> as the first call left it. If \<^verbatim>\<open>start\<close> runs between
  the two calls, the second call likewise makes no call, and
  \<open>currentTransferCompletedSemaphore\<close> is unset after it.
\<close>

theorem second_transfer_copies_nothing:
  assumes "transferDynamicData env1 s = Some (r1, s1, evs1)"
    and "\<forall>sz mr. MapMemory sz mr \<in> set evs1 \<longrightarrow> mr = VK_SUCCESS"
  shows "(\<exists>s2. transfer_twice env1 env2 s = Some (VK_SUCCESS, s2, [])
      \<and> transferDynamicData env2 s1 = Some (VK_SUCCESS, s2, [])
      \<and> currentTransferCompletedSemaphore s2 = currentTransferCompletedSemaphore s1
      \<and> dynamicDataMap s2 = dynamicDataMap s1
      \<and> (if index s1 0 < length (frames s1) \<and> dynamicDataMap s1 \<noteq> []
          then copyRegions (frames s2 ! index s1 0) =
                 replicate (dynamicDataTotalRegions s1) zero_region
             \<and> (\<exists>cb. transferCommandBuffer (frames s2 ! index s1 0) = Some cb \<and> recorded cb = [])
          else s2 = s1))
    \<and> (\<forall>wait_result r s1' evs'.
          start wait_result s1 = Some (r, s1', evs') \<longrightarrow>
          (\<exists>s2. transferDynamicData env2 s1' = Some (VK_SUCCESS, s2, [])
              \<and> currentTransferCompletedSemaphore s2 = None
              \<and> dynamicDataMap s2 = dynamicDataMap s1))"
proof (intro conjI allI impI)
  show "\<exists>s2. transfer_twice env1 env2 s = Some (VK_SUCCESS, s2, [])
      \<and> transferDynamicData env2 s1 = Some (VK_SUCCESS, s2, [])
      \<and> currentTransferCompletedSemaphore s2 = currentTransferCompletedSemaphore s1
      \<and> dynamicDataMap s2 = dynamicDataMap s1
      \<and> (if index s1 0 < length (frames s1) \<and> dynamicDataMap s1 \<noteq> []
          then copyRegions (frames s2 ! index s1 0) =
                 replicate (dynamicDataTotalRegions s1) zero_region
             \<and> (\<exists>cb. transferCommandBuffer (frames s2 ! index s1 0) = Some cb \<and> recorded cb = [])
          else s2 = s1)"
    using assms by (rule second_transfer_idle)
next
  fix wait_result r s1' evs'
  assume st: "start wait_result s1 = Some (r, s1', evs')"
  from start_keeps_registry(3) [OF st nothing_to_transfer_after [OF assms]]
  have "nothing_to_transfer s1'" .
  from idle_transfer [OF this, of env2] start_keeps_registry(1,2) [OF st]
  show "\<exists>s2. transferDynamicData env2 s1' = Some (VK_SUCCESS, s2, [])
              \<and> currentTransferCompletedSemaphore s2 = None
              \<and> dynamicDataMap s2 = dynamicDataMap s1"
    by auto
qed

section \<open>Capacity of the staging buffer\<close>

lemma staging_capacity_update:
  "needs_staging s \<Longrightarrow>
   staging_capacity (frames s ! index s 0) \<le> dynamicDataTotalSize s"
  by (auto simp: needs_staging_def staging_capacity_def split: option.splits)

lemma transfer_frames:
  assumes t: "transferDynamicData env s = Some (r, s', evs)"
  shows "indices s' = indices s" and "length (frames s') = length (frames s)"
    and "staging_capacity (frames s ! j) \<le> staging_capacity (frames s' ! j)"
    and "index s 0 < length (frames s) \<Longrightarrow> dynamicDataMap s \<noteq> [] \<Longrightarrow>
           dynamicDataTotalSize s \<le> staging_capacity (frames s' ! index s 0)"
    and "staging (frames s' ! j) \<noteq> staging (frames s ! j) \<Longrightarrow>
           j = index s 0 \<and> needs_staging s
         \<and> staging (frames s' ! j) =
             Some \<lparr>buffer_vk = created_staging env, buffer_size = dynamicDataTotalSize s\<rparr>"
proof -
  have "indices s' = indices s \<and> length (frames s') = length (frames s)
    \<and> staging_capacity (frames s ! j) \<le> staging_capacity (frames s' ! j)
    \<and> (index s 0 < length (frames s) \<longrightarrow> dynamicDataMap s \<noteq> [] \<longrightarrow>
           dynamicDataTotalSize s \<le> staging_capacity (frames s' ! index s 0))
    \<and> (staging (frames s' ! j) \<noteq> staging (frames s ! j) \<longrightarrow>
           j = index s 0 \<and> needs_staging s
         \<and> staging (frames s' ! j) =
             Some \<lparr>buffer_vk = created_staging env, buffer_size = dynamicDataTotalSize s\<rparr>)"
  proof (cases rule: transferDynamicData_cases [where s = s and env = env])
    case skip
    with t have "s' = s" by (simp add: transferDynamicData_skip)
    with skip show ?thesis by auto
  next
    case map_failure
    from transferDynamicData_map_failure(3) [OF t map_failure] obtain frame' where
      s': "s' = s\<lparr>frames := (frames s)[index s 0 := frame']\<rparr>"
      and st: "staging frame' =
              Some \<lparr>buffer_vk = created_staging env, buffer_size = dynamicDataTotalSize s\<rparr>"
      by blast
    have c: "staging_capacity frame' = dynamicDataTotalSize s"
      by (simp add: staging_capacity_def st)
    show ?thesis
      using map_failure(1,3) st c staging_capacity_update [OF map_failure(3)]
      by (cases "j = index s 0") (simp_all add: s')
  next
    case walk
    note w = walk_result [OF t walk]
    from walk have i: "index s 0 < length (frames s)" by (simp add: reaches_walk_def)
    from w(10) obtain stg where
      st: "staging (frames s' ! index s 0) = Some stg"
      and le: "\<not> buffer_size stg < dynamicDataTotalSize s"
      and stg: "stg = (if needs_staging s
                then \<lparr>buffer_vk = created_staging env, buffer_size = dynamicDataTotalSize s\<rparr>
                else the (staging (frames s ! index s 0)))"
      by blast
    have c: "staging_capacity (frames s' ! index s 0) = buffer_size stg"
      by (simp add: staging_capacity_def st)
    have old: "staging_capacity (frames s ! index s 0) \<le> buffer_size stg"
    proof (cases "needs_staging s")
      case True
      then show ?thesis using staging_capacity_update [OF True] by (simp add: stg)
    next
      case False
      then show ?thesis
        by (auto simp: stg needs_staging_def staging_capacity_def split: option.splits)
    qed
    have same: "\<not> needs_staging s \<Longrightarrow> staging (frames s' ! index s 0) = staging (frames s ! index s 0)"
      by (auto simp: st stg needs_staging_def split: option.splits)
    show ?thesis
    proof (cases "j = index s 0")
      case True
      show ?thesis
        using w(4,5) old le same st stg unfolding True c by auto
    next
      case False
      show ?thesis
        using w(4,5) w(9) [OF False] le False unfolding c by auto
    qed
  qed
  then show "indices s' = indices s" and "length (frames s') = length (frames s)"
    and "staging_capacity (frames s ! j) \<le> staging_capacity (frames s' ! j)"
    and "index s 0 < length (frames s) \<Longrightarrow> dynamicDataMap s \<noteq> [] \<Longrightarrow>
           dynamicDataTotalSize s \<le> staging_capacity (frames s' ! index s 0)"
    and "staging (frames s' ! j) \<noteq> staging (frames s ! j) \<Longrightarrow>
           j = index s 0 \<and> needs_staging s
         \<and> staging (frames s' ! j) =
             Some \<lparr>buffer_vk = created_staging env, buffer_size = dynamicDataTotalSize s\<rparr>"
    by blast+
qed

lemma assign_frames [simp]:
  "frames (assignDynamicBufferInfos l s) = frames s"
  "indices (assignDynamicBufferInfos l s) = indices s"
  by (simp_all add: assignDynamicBufferInfos_def Let_def split: prod.splits)

lemma index_assign [simp]: "index (assignDynamicBufferInfos l s) k = index s k"
  by (simp add: index_def)

lemma assign_empty_total:
  "dynamicDataMap (assignDynamicBufferInfos l s) = [] \<Longrightarrow>
   dynamicDataTotalSize (assignDynamicBufferInfos l s) = 0"
  by (auto simp: assignDynamicBufferInfos_def Let_def split: prod.splits)

lemma calls_frames:
  "calls ops s = Some s' \<Longrightarrow>
     indices s' = indices s \<and> length (frames s') = length (frames s)
   \<and> (\<forall>j. staging_capacity (frames s ! j) \<le> staging_capacity (frames s' ! j))"
proof (induction ops s rule: calls.induct)
  case (1 s)
  then show ?case by simp
next
  case (2 l rest s)
  then show ?case by simp
next
  case (3 env rest s)
  from "3.prems" obtain r s1 evs where
    t: "transferDynamicData env s = Some (r, s1, evs)" and c: "calls rest s1 = Some s'"
    by (auto split: option.splits)
  note f = transfer_frames [OF t]
  from "3.IH" [OF t refl refl c] f(1,2) f(3)
  show ?case by (auto intro: order_trans)
qed

text \<open>
  Claim C7. Let any sequence of assign and transfer calls be followed by an assign and its
  transfer, and then by any further sequence of such calls, on a task with a current slot.
  The staging capacity of every frame slot never decreases from one of these states to the
  next. After the transfer in the middle, and ever after, the capacity of the current slot
  is at least the total size required by its assign. That transfer replaces the staging
  buffer of a slot only if the slot is the current one and had no staging buffer or one
  strictly smaller than the required total size, which is then the size of the new buffer.
\<close>

theorem staging_capacity_never_decreases:
  assumes before: "calls before s0 = Some s1"
    and t: "transferDynamicData env (assignDynamicBufferInfos l s1) = Some (r, s2, evs)"
    and after: "calls after s2 = Some s3"
    and i: "index s0 0 < length (frames s0)"
  shows "(\<forall>j. staging_capacity (frames s0 ! j) \<le> staging_capacity (frames s1 ! j)
            \<and> staging_capacity (frames s1 ! j) \<le> staging_capacity (frames s2 ! j)
            \<and> staging_capacity (frames s2 ! j) \<le> staging_capacity (frames s3 ! j))
    \<and> dynamicDataTotalSize (assignDynamicBufferInfos l s1)
         \<le> staging_capacity (frames s2 ! index s0 0)
    \<and> dynamicDataTotalSize (assignDynamicBufferInfos l s1)
         \<le> staging_capacity (frames s3 ! index s0 0)
    \<and> (\<forall>j. staging (frames s2 ! j) \<noteq> staging (frames s1 ! j) \<longrightarrow>
           j = index s0 0
         \<and> (staging (frames s1 ! j) = None
              \<or> staging_capacity (frames s1 ! j)
                   < dynamicDataTotalSize (assignDynamicBufferInfos l s1))
         \<and> staging (frames s2 ! j) =
             Some \<lparr>buffer_vk = created_staging env,
                    buffer_size = dynamicDataTotalSize (assignDynamicBufferInfos l s1)\<rparr>)"
proof -
  let ?a = "assignDynamicBufferInfos l s1"
  from calls_frames [OF before] have b: "indices s1 = indices s0"
    "length (frames s1) = length (frames s0)"
    "\<And>j. staging_capacity (frames s0 ! j) \<le> staging_capacity (frames s1 ! j)"
    by blast+
  from calls_frames [OF after] have a:
    "\<And>j. staging_capacity (frames s2 ! j) \<le> staging_capacity (frames s3 ! j)"
    by blast
  note f = transfer_frames [OF t]
  have ix: "index s1 0 = index s0 0" using b by (simp add: index_def)
  have i1: "index ?a 0 < length (frames ?a)" using i b by (simp add: ix)
  have mono: "\<forall>j. staging_capacity (frames s0 ! j) \<le> staging_capacity (frames s1 ! j)
            \<and> staging_capacity (frames s1 ! j) \<le> staging_capacity (frames s2 ! j)
            \<and> staging_capacity (frames s2 ! j) \<le> staging_capacity (frames s3 ! j)"
    using a b(3) f(3) by simp
  have tot: "dynamicDataTotalSize ?a \<le> staging_capacity (frames s2 ! index s0 0)"
  proof (cases "dynamicDataMap ?a = []")
    case True
    then show ?thesis by (simp add: assign_empty_total)
  next
    case False
    from f(4) [OF i1 False] show ?thesis by (simp add: ix)
  qed
  have tot3: "dynamicDataTotalSize ?a \<le> staging_capacity (frames s3 ! index s0 0)"
    using tot a by (blast intro: order_trans)
  have re: "\<forall>j. staging (frames s2 ! j) \<noteq> staging (frames s1 ! j) \<longrightarrow>
           j = index s0 0
         \<and> (staging (frames s1 ! j) = None
              \<or> staging_capacity (frames s1 ! j) < dynamicDataTotalSize ?a)
         \<and> staging (frames s2 ! j) =
             Some \<lparr>buffer_vk = created_staging env, buffer_size = dynamicDataTotalSize ?a\<rparr>"
  proof (intro allI impI)
    fix j assume "staging (frames s2 ! j) \<noteq> staging (frames s1 ! j)"
    then have "staging (frames s2 ! j) \<noteq> staging (frames ?a ! j)" by simp
    from f(5) [OF this] have j: "j = index s0 0" and n: "needs_staging ?a"
      and s: "staging (frames s2 ! j) =
             Some \<lparr>buffer_vk = created_staging env, buffer_size = dynamicDataTotalSize ?a\<rparr>"
      by (auto simp: ix)
    from n have "staging (frames s1 ! j) = None
              \<or> staging_capacity (frames s1 ! j) < dynamicDataTotalSize ?a"
      by (auto simp: needs_staging_def staging_capacity_def j ix split: option.splits)
    with j s show "j = index s0 0
         \<and> (staging (frames s1 ! j) = None
              \<or> staging_capacity (frames s1 ! j) < dynamicDataTotalSize ?a)
         \<and> staging (frames s2 ! j) =
             Some \<lparr>buffer_vk = created_staging env, buffer_size = dynamicDataTotalSize ?a\<rparr>"
      by simp
  qed
  from mono tot tot3 re show ?thesis by blast
qed

section \<open>The alignment scenario\<close>

lemma next_offset_10:
  "next_offset 4 10 = 12" "next_offset 4 32 = 32" "next_offset 4 20 = 20" "next_offset 4 30 = 32"
  by (simp_all add: next_offset_def)

lemma assign_queues [simp]:
  "transferQueue (assignDynamicBufferInfos l s) = transferQueue s"
  "currentTransferCompletedSemaphore (assignDynamicBufferInfos l s) =
     currentTransferCompletedSemaphore s"
  by (simp_all add: assignDynamicBufferInfos_def Let_def split: prod.splits)

lemma two_entries_registered:
  assumes "dynamicDataMap s = []"
    and "buffer e1 = buffer e2" and "range_size e1 = 10" and "range_size e2 = 20"
    and "offset e1 \<noteq> offset e2"
    and "l = [e1, e2] \<or> l = [e2, e1]"
  shows "dynamicDataMap (assignDynamicBufferInfos l s) =
           [(buffer e1, if offset e1 < offset e2 then [(offset e1, e1), (offset e2, e2)]
                        else [(offset e2, e2), (offset e1, e1)])]"
    and "dynamicDataTotalSize (assignDynamicBufferInfos l s) = 32"
    and "dynamicDataTotalRegions (assignDynamicBufferInfos l s) = 2"
    and "referenceCount e1 \<noteq> 1 \<Longrightarrow> referenceCount e2 \<noteq> 1 \<Longrightarrow>
         modifiedCount (data e1) \<noteq> copiedModifiedCount e1 \<Longrightarrow>
         modifiedCount (data e2) \<noteq> copiedModifiedCount e2 \<Longrightarrow>
         staged_registry (dynamicDataMap (assignDynamicBufferInfos l s)) 0 =
           (if offset e1 < offset e2 then [(0, e1), (12, e2)] else [(0, e2), (20, e1)])"
proof -
  let ?a = "assignDynamicBufferInfos l s"
  let ?m = "[(buffer e1, if offset e1 < offset e2 then [(offset e1, e1), (offset e2, e2)]
                        else [(offset e2, e2), (offset e1, e1)])]"
  have m: "assign_bufferInfos l [] = ?m"
    using assms(2,5,6) by auto
  have tot: "total_buffers ?m (0, 0) = (32, 2)"
    using assms(3,4) by (simp add: next_offset_10)
  show reg: "dynamicDataMap ?a = ?m"
    using assms(1) m tot by (simp add: assignDynamicBufferInfos_def)
  show "dynamicDataTotalSize ?a = 32" and "dynamicDataTotalRegions ?a = 2"
    using assms(1) m tot by (simp_all add: assignDynamicBufferInfos_def)
  show "staged_registry (dynamicDataMap ?a) 0 =
           (if offset e1 < offset e2 then [(0, e1), (12, e2)] else [(0, e2), (20, e1)])"
    if "referenceCount e1 \<noteq> 1" "referenceCount e2 \<noteq> 1"
      "modifiedCount (data e1) \<noteq> copiedModifiedCount e1"
      "modifiedCount (data e2) \<noteq> copiedModifiedCount e2"
    unfolding reg using that assms(3,4) by (simp add: next_offset_10)
qed

lemma two_entries_transferred:
  assumes "dynamicDataMap s = []"
    and "buffer e1 = buffer e2" and "range_size e1 = 10" and "range_size e2 = 20"
    and "offset e1 \<noteq> offset e2"
    and "l = [e1, e2] \<or> l = [e2, e1]"
    and o: "referenceCount e1 \<noteq> 1" "referenceCount e2 \<noteq> 1"
      "modifiedCount (data e1) \<noteq> copiedModifiedCount e1"
      "modifiedCount (data e2) \<noteq> copiedModifiedCount e2"
    and w: "reaches_walk env (assignDynamicBufferInfos l s)"
    and q: "transferQueue s \<noteq> None"
    and b: "needs_staging (assignDynamicBufferInfos l s)
            \<or> buffer_data (frames s ! index s 0) \<noteq> None"
  shows "\<exists>r s' evs.
      transferDynamicData env (assignDynamicBufferInfos l s) = Some (r, s', evs)
    \<and> copyRegions (frames s' ! index s 0) =
        (if offset e1 < offset e2
         then [\<lparr>srcOffset = 0, dstOffset = offset e1, copySize = 10\<rparr>,
               \<lparr>srcOffset = 12, dstOffset = offset e2, copySize = 20\<rparr>]
         else [\<lparr>srcOffset = 0, dstOffset = offset e2, copySize = 20\<rparr>,
               \<lparr>srcOffset = 20, dstOffset = offset e1, copySize = 10\<rparr>])
    \<and> filter is_Memcpy evs =
        (if offset e1 < offset e2
         then [Memcpy (buffer_data (frames s' ! index s 0)) 0 (dataPointer (data e1)) 10,
               Memcpy (buffer_data (frames s' ! index s 0)) 12 (dataPointer (data e2)) 20]
         else [Memcpy (buffer_data (frames s' ! index s 0)) 0 (dataPointer (data e2)) 20,
               Memcpy (buffer_data (frames s' ! index s 0)) 20 (dataPointer (data e1)) 10])"
proof -
  let ?a = "assignDynamicBufferInfos l s"
  note r = two_entries_registered [OF assms(1-6)]
  note pr = r(4) [OF o]
  have tr: "dynamicDataTotalRegions ?a = 2" by (rule r(3))
  have wd: "walk_defined ?a"
    using q b by (simp add: walk_defined_def pr tr)
  from transferDynamicData_defined [OF wd, of env] obtain r' s' evs where
    t: "transferDynamicData env ?a = Some (r', s', evs)"
    by (metis prod_cases3)
  from walk_result(2) [OF t w] walk_result(3) [OF t w]
  have "copyRegions (frames s' ! index s 0) =
        (if offset e1 < offset e2
         then [\<lparr>srcOffset = 0, dstOffset = offset e1, copySize = 10\<rparr>,
               \<lparr>srcOffset = 12, dstOffset = offset e2, copySize = 20\<rparr>]
         else [\<lparr>srcOffset = 0, dstOffset = offset e2, copySize = 20\<rparr>,
               \<lparr>srcOffset = 20, dstOffset = offset e1, copySize = 10\<rparr>])
    \<and> filter is_Memcpy evs =
        (if offset e1 < offset e2
         then [Memcpy (buffer_data (frames s' ! index s 0)) 0 (dataPointer (data e1)) 10,
               Memcpy (buffer_data (frames s' ! index s 0)) 12 (dataPointer (data e2)) 20]
         else [Memcpy (buffer_data (frames s' ! index s 0)) 0 (dataPointer (data e2)) 20,
               Memcpy (buffer_data (frames s' ! index s 0)) 20 (dataPointer (data e1)) 10])"
    using assms(3,4) by (simp add: pr tr copy_region_def copy_call_def)
  with t show ?thesis by blast
qed

text \<open>
  Claim C9, as amended. Two entries of 10 and 20 bytes for the same destination buffer at
  different destination offsets, registered in either order on an empty registry, give a
  total staging size of 32 and a total region count of 2. A transfer that reaches the walk
  with both entries externally owned and modified, a transfer queue and mapped staging
  memory returns, and it stages the entries in the order of their destination offsets: the
  10-byte entry at 0 and the 20-byte entry at 12 if the 10-byte entry has the lower
  destination offset, and otherwise the 20-byte entry at 0 and the 10-byte entry at 20.
\<close>

theorem alignment_scenario:
  assumes "dynamicDataMap s = []"
    and "buffer e1 = buffer e2" and "range_size e1 = 10" and "range_size e2 = 20"
    and "offset e1 \<noteq> offset e2"
    and "l = [e1, e2] \<or> l = [e2, e1]"
  shows "dynamicDataTotalSize (assignDynamicBufferInfos l s) = 32
    \<and> dynamicDataTotalRegions (assignDynamicBufferInfos l s) = 2
    \<and> (\<forall>env.
          referenceCount e1 \<noteq> 1 \<and> referenceCount e2 \<noteq> 1
          \<and> modifiedCount (data e1) \<noteq> copiedModifiedCount e1
          \<and> modifiedCount (data e2) \<noteq> copiedModifiedCount e2
          \<and> reaches_walk env (assignDynamicBufferInfos l s)
          \<and> transferQueue s \<noteq> None
          \<and> (needs_staging (assignDynamicBufferInfos l s)
               \<or> buffer_data (frames s ! index s 0) \<noteq> None) \<longrightarrow>
          (\<exists>r s' evs.
              transferDynamicData env (assignDynamicBufferInfos l s) = Some (r, s', evs)
            \<and> copyRegions (frames s' ! index s 0) =
                (if offset e1 < offset e2
                 then [\<lparr>srcOffset = 0, dstOffset = offset e1, copySize = 10\<rparr>,
                       \<lparr>srcOffset = 12, dstOffset = offset e2, copySize = 20\<rparr>]
                 else [\<lparr>srcOffset = 0, dstOffset = offset e2, copySize = 20\<rparr>,
                       \<lparr>srcOffset = 20, dstOffset = offset e1, copySize = 10\<rparr>])
            \<and> filter is_Memcpy evs =
                (if offset e1 < offset e2
                 then [Memcpy (buffer_data (frames s' ! index s 0)) 0 (dataPointer (data e1)) 10,
                       Memcpy (buffer_data (frames s' ! index s 0)) 12 (dataPointer (data e2)) 20]
                 else [Memcpy (buffer_data (frames s' ! index s 0)) 0 (dataPointer (data e2)) 20,
                       Memcpy (buffer_data (frames s' ! index s 0)) 20
                         (dataPointer (data e1)) 10])))"
proof (intro conjI allI impI)
  show "dynamicDataTotalSize (assignDynamicBufferInfos l s) = 32"
    using assms by (rule two_entries_registered(2))
  show "dynamicDataTotalRegions (assignDynamicBufferInfos l s) = 2"
    using assms by (rule two_entries_registered(3))
next
  fix env
  assume h: "referenceCount e1 \<noteq> 1 \<and> referenceCount e2 \<noteq> 1
          \<and> modifiedCount (data e1) \<noteq> copiedModifiedCount e1
          \<and> modifiedCount (data e2) \<noteq> copiedModifiedCount e2
          \<and> reaches_walk env (assignDynamicBufferInfos l s)
          \<and> transferQueue s \<noteq> None
          \<and> (needs_staging (assignDynamicBufferInfos l s)
               \<or> buffer_data (frames s ! index s 0) \<noteq> None)"
  then have o: "referenceCount e1 \<noteq> 1" "referenceCount e2 \<noteq> 1"
      "modifiedCount (data e1) \<noteq> copiedModifiedCount e1"
      "modifiedCount (data e2) \<noteq> copiedModifiedCount e2"
    and w: "reaches_walk env (assignDynamicBufferInfos l s)"
    and q: "transferQueue s \<noteq> None"
    and b: "needs_staging (assignDynamicBufferInfos l s)
            \<or> buffer_data (frames s ! index s 0) \<noteq> None"
    by blast+
  from two_entries_transferred [OF assms o w q b]
  show "\<exists>r s' evs.
              transferDynamicData env (assignDynamicBufferInfos l s) = Some (r, s', evs)
            \<and> copyRegions (frames s' ! index s 0) =
                (if offset e1 < offset e2
                 then [\<lparr>srcOffset = 0, dstOffset = offset e1, copySize = 10\<rparr>,
                       \<lparr>srcOffset = 12, dstOffset = offset e2, copySize = 20\<rparr>]
                 else [\<lparr>srcOffset = 0, dstOffset = offset e2, copySize = 20\<rparr>,
                       \<lparr>srcOffset = 20, dstOffset = offset e1, copySize = 10\<rparr>])
            \<and> filter is_Memcpy evs =
                (if offset e1 < offset e2
                 then [Memcpy (buffer_data (frames s' ! index s 0)) 0 (dataPointer (data e1)) 10,
                       Memcpy (buffer_data (frames s' ! index s 0)) 12 (dataPointer (data e2)) 20]
                 else [Memcpy (buffer_data (frames s' ! index s 0)) 0 (dataPointer (data e2)) 20,
                       Memcpy (buffer_data (frames s' ! index s 0)) 20
                         (dataPointer (data e1)) 10])" .
qed

section \<open>The example registry\<close>

lemma example_info_fields [simp]:
  "buffer example_info_a = 5" "offset example_info_a = 0" "range_size example_info_a = 10"
  "referenceCount example_info_a = 2" "modifiedCount (data example_info_a) = 1"
  "copiedModifiedCount example_info_a = 0" "dataPointer (data example_info_a) = 100"
  "buffer example_info_b = 5" "offset example_info_b = 16" "range_size example_info_b = 20"
  "referenceCount example_info_b = 2" "modifiedCount (data example_info_b) = 3"
  "copiedModifiedCount example_info_b = 2" "dataPointer (data example_info_b) = 200"
  "buffer example_info_c = 6" "offset example_info_c = 0" "range_size example_info_c = 8"
  "referenceCount example_info_c = 1" "modifiedCount (data example_info_c) = 1"
  "copiedModifiedCount example_info_c = 0" "dataPointer (data example_info_c) = 300"
  "buffer example_info_d = 5" "offset example_info_d = 64" "range_size example_info_d = 10"
  "referenceCount example_info_d = 2" "modifiedCount (data example_info_d) = 1"
  "copiedModifiedCount example_info_d = 0" "dataPointer (data example_info_d) = 400"
  by (simp_all add: example_info_a_def example_info_b_def example_info_c_def
        example_info_d_def)

lemma example_registry:
  "dynamicDataMap example_registered =
     [(5, [(0, example_info_a), (16, example_info_b)]), (6, [(0, example_info_c)])]"
  "dynamicDataTotalSize example_registered = 40"
  "dynamicDataTotalRegions example_registered = 3"
proof -
  have m: "assign_bufferInfos [example_info_a, example_info_b, example_info_c] [] =
     [(5, [(0, example_info_a), (16, example_info_b)]), (6, [(0, example_info_c)])]"
    by simp
  have n: "next_offset 4 40 = 40" by (simp add: next_offset_def)
  have t: "total_buffers
     [(5, [(0, example_info_a), (16, example_info_b)]), (6, [(0, example_info_c)])] (0, 0) = (40, 3)"
    by (simp add: next_offset_10 n)
  have e: "dynamicDataMap example_task = []"
    by (simp add: example_task_def RecordAndSubmitTask_create_def)
  show "dynamicDataMap example_registered =
     [(5, [(0, example_info_a), (16, example_info_b)]), (6, [(0, example_info_c)])]"
    "dynamicDataTotalSize example_registered = 40"
    "dynamicDataTotalRegions example_registered = 3"
    by (simp_all add: example_registered_def assignDynamicBufferInfos_def e next_offset_10 n)
qed

lemma example_fields:
  "index example_registered 0 = 0"
  "frames example_registered = [new_Frame, new_Frame]"
  "transferQueue example_registered = Some 8"
  "currentTransferCompletedSemaphore example_registered = None"
  "indices example_registered = [0, 2]"
  by (simp_all add: example_registered_def example_task_def RecordAndSubmitTask_create_def
        index_def numeral_2_eq_2)

lemma example_staged:
  "staged_registry (dynamicDataMap example_registered) 0 =
     [(0, example_info_a), (12, example_info_b)]"
  by (simp add: example_registry next_offset_10 end_offset_def)

lemma example_pruned:
  "pruned_registry (dynamicDataMap example_registered) =
     [(5, [(0, mark_copied example_info_a), (16, mark_copied example_info_b)])]"
  by (simp add: example_registry live_entries_def)

lemma example_needs_staging: "needs_staging example_registered"
  by (simp add: needs_staging_def example_fields new_Frame_def)

lemma example_reaches_walk: "reaches_walk example_env example_registered"
  by (simp add: reaches_walk_def example_fields example_registry example_env_def)

lemma example_defined: "\<exists>x. transferDynamicData env example_registered = Some x"
  by (rule transferDynamicData_defined)
    (simp add: walk_defined_def example_fields example_staged example_registry example_needs_staging)

lemma example_walk:
  assumes m: "map_result env = VK_SUCCESS"
    and t: "transferDynamicData env example_registered = Some (r, s1, evs)"
  shows "r = queue_result env"
    and "evs = [MapMemory 40 VK_SUCCESS,
                Memcpy (Some (mapped_address env)) 0 100 10,
                Memcpy (Some (mapped_address env)) 12 200 20,
                QueueSubmit 8
                  \<lparr>pWaitSemaphores = [], pWaitDstStageMask = [],
                   pCommandBuffers = [allocated_commandBuffer env],
                   pSignalSemaphores = [created_semaphore env]\<rparr>
                  None (queue_result env)]"
    and "dynamicDataMap s1 =
           [(5, [(0, mark_copied example_info_a), (16, mark_copied example_info_b)])]"
    and "currentTransferCompletedSemaphore s1 =
           (if queue_result env = VK_SUCCESS
            then Some \<lparr>semaphore_vk = created_semaphore env,
                        pipelineStageFlags = VK_PIPELINE_STAGE_TRANSFER_BIT\<rparr>
            else None)"
    and "copyRegions (frames s1 ! 0) =
           [\<lparr>srcOffset = 0, dstOffset = 0, copySize = 10\<rparr>,
            \<lparr>srcOffset = 12, dstOffset = 16, copySize = 20\<rparr>, zero_region]"
    and "buffer_data (frames s1 ! 0) = Some (mapped_address env)"
proof -
  have w: "reaches_walk env example_registered"
    by (simp add: reaches_walk_def example_fields example_registry m)
  from transferDynamicData_walk [OF t w] obtain cb cmds sem stg bd where
    s1: "s1 = example_registered\<lparr>frames := (frames example_registered)[0 := new_Frame\<lparr>
                 transferCompledSemaphore := Some sem,
                 staging := Some stg,
                 buffer_data := bd,
                 copyRegions :=
                   map copy_region [(0, example_info_a), (12, example_info_b)]
                   @ replicate (3 - length [(0 :: VkDeviceSize, example_info_a), (12, example_info_b)]) zero_region,
                 transferCommandBuffer := Some (cb\<lparr>recorded := cmds\<rparr>)\<rparr>],
               dynamicDataMap := pruned_registry (dynamicDataMap example_registered),
               currentTransferCompletedSemaphore :=
                 (if [(0 :: VkDeviceSize, example_info_a), (12, example_info_b)] \<noteq> [] \<and> queue_result env = VK_SUCCESS then Some sem
                  else currentTransferCompletedSemaphore example_registered)\<rparr>"
    and bd: "bd = Some (mapped_address env)"
    and sem: "sem = \<lparr>semaphore_vk = created_semaphore env,
                         pipelineStageFlags = VK_PIPELINE_STAGE_TRANSFER_BIT\<rparr>"
    and cb: "transfer_vk cb = allocated_commandBuffer env"
    and r: "r = (if [(0 :: VkDeviceSize, example_info_a), (12, example_info_b)] = [] then VK_SUCCESS else queue_result env)"
    and evs: "evs = [MapMemory 40 VK_SUCCESS]
         @ map (copy_call bd) [(0, example_info_a), (12, example_info_b)]
         @ [QueueSubmit 8
                    \<lparr>pWaitSemaphores = [], pWaitDstStageMask = [],
                     pCommandBuffers = [transfer_vk cb],
                     pSignalSemaphores = [semaphore_vk sem]\<rparr>
                    None (queue_result env)]"
    unfolding example_staged
    by (simp add: example_fields example_registry example_needs_staging new_Frame_def) blast
  show "r = queue_result env" using r by simp
  show "evs = [MapMemory 40 VK_SUCCESS,
                Memcpy (Some (mapped_address env)) 0 100 10,
                Memcpy (Some (mapped_address env)) 12 200 20,
                QueueSubmit 8
                  \<lparr>pWaitSemaphores = [], pWaitDstStageMask = [],
                   pCommandBuffers = [allocated_commandBuffer env],
                   pSignalSemaphores = [created_semaphore env]\<rparr>
                  None (queue_result env)]"
    by (simp add: evs bd sem cb copy_call_def)
  show "dynamicDataMap s1 =
           [(5, [(0, mark_copied example_info_a), (16, mark_copied example_info_b)])]"
    by (simp add: s1 example_pruned)
  show "currentTransferCompletedSemaphore s1 =
           (if queue_result env = VK_SUCCESS
            then Some \<lparr>semaphore_vk = created_semaphore env,
                        pipelineStageFlags = VK_PIPELINE_STAGE_TRANSFER_BIT\<rparr>
            else None)"
    by (simp add: s1 sem example_fields)
  show "copyRegions (frames s1 ! 0) =
           [\<lparr>srcOffset = 0, dstOffset = 0, copySize = 10\<rparr>,
            \<lparr>srcOffset = 12, dstOffset = 16, copySize = 20\<rparr>, zero_region]"
    by (simp add: s1 example_fields copy_region_def)
  show "buffer_data (frames s1 ! 0) = Some (mapped_address env)"
    by (simp add: s1 example_fields bd)
qed

section \<open>The properties at the example states\<close>

lemma example_env_fields [simp]:
  "map_result example_env = VK_SUCCESS" "queue_result example_env = VK_SUCCESS"
  "mapped_address example_env = 4096" "allocated_commandBuffer example_env = 50"
  "created_semaphore example_env = 60" "created_staging example_env = 70"
  "map_result example_env_map_fails = - 4"
  "map_result example_env_submit_fails = VK_SUCCESS"
  "queue_result example_env_submit_fails = - 4"
  "mapped_address example_env_submit_fails = 4096"
  "allocated_commandBuffer example_env_submit_fails = 50"
  "created_semaphore example_env_submit_fails = 60"
  by (simp_all add: example_env_def example_env_map_fails_def example_env_submit_fails_def)

text \<open>
  Claim C3 as stated fails: on the example registry, where
  \<open>currentTransferCompletedSemaphore\<close> is unset before the first call, the second of two
  calls in succession copies and submits nothing, and the semaphore of the first call is
  still set after it.
\<close>

theorem second_transfer_keeps_semaphore:
  "currentTransferCompletedSemaphore example_registered = None
   \<and> transfer_twice example_env example_env example_registered \<noteq> None
   \<and> fst (the (transfer_twice example_env example_env example_registered)) = VK_SUCCESS
   \<and> snd (snd (the (transfer_twice example_env example_env example_registered))) = []
   \<and> currentTransferCompletedSemaphore
        (fst (snd (the (transfer_twice example_env example_env example_registered)))) =
      Some \<lparr>semaphore_vk = 60, pipelineStageFlags = VK_PIPELINE_STAGE_TRANSFER_BIT\<rparr>"
proof -
  from example_defined [of example_env] obtain r1 s1 evs1 where
    t1: "transferDynamicData example_env example_registered = Some (r1, s1, evs1)"
    by (metis prod_cases3)
  note e = example_walk [OF _ t1, simplified]
  have ok: "\<forall>sz mr. MapMemory sz mr \<in> set evs1 \<longrightarrow> mr = VK_SUCCESS"
    by (auto simp: e(2))
  from second_transfer_idle [OF t1 ok, of example_env] obtain s2 where
    "transfer_twice example_env example_env example_registered = Some (VK_SUCCESS, s2, [])"
    "currentTransferCompletedSemaphore s2 = currentTransferCompletedSemaphore s1"
    by blast
  then show ?thesis by (simp add: e(4) example_fields)
qed

theorem second_transfer_copies_nothing_witness:
  "\<exists>r1 s1 evs1 s2 r s1' evs' s3.
      transferDynamicData example_env example_registered = Some (r1, s1, evs1)
    \<and> filter is_MapMemory evs1 = [MapMemory 40 VK_SUCCESS]
    \<and> transfer_twice example_env example_env example_registered = Some (VK_SUCCESS, s2, [])
    \<and> transferDynamicData example_env s1 = Some (VK_SUCCESS, s2, [])
    \<and> currentTransferCompletedSemaphore s2 = currentTransferCompletedSemaphore s1
    \<and> dynamicDataMap s2 =
        [(5, [(0, mark_copied example_info_a), (16, mark_copied example_info_b)])]
    \<and> copyRegions (frames s2 ! 0) = [zero_region, zero_region, zero_region]
    \<and> start VK_SUCCESS s1 = Some (r, s1', evs')
    \<and> transferDynamicData example_env s1' = Some (VK_SUCCESS, s3, [])
    \<and> currentTransferCompletedSemaphore s3 = None"
proof -
  from example_defined [of example_env] obtain r1 s1 evs1 where
    t1: "transferDynamicData example_env example_registered = Some (r1, s1, evs1)"
    by (metis prod_cases3)
  note e = example_walk [OF _ t1, simplified]
  have ok: "\<forall>sz mr. MapMemory sz mr \<in> set evs1 \<longrightarrow> mr = VK_SUCCESS"
    by (auto simp: e(2))
  note w = walk_result [OF t1 example_reaches_walk]
  have i1: "index s1 0 = 0" "length (frames s1) = 2" "dynamicDataTotalRegions s1 = 3"
    using w(4,5,7) by (simp_all add: index_def example_fields example_registry)
  from start_defined [of s1 VK_SUCCESS] i1 obtain r s1' evs' where
    st: "start VK_SUCCESS s1 = Some (r, s1', evs')"
    by (metis prod_cases3 zero_less_numeral)
  note th = second_transfer_copies_nothing [OF t1 ok, of example_env]
  from th obtain s2 where
    s2: "transfer_twice example_env example_env example_registered = Some (VK_SUCCESS, s2, [])"
    "transferDynamicData example_env s1 = Some (VK_SUCCESS, s2, [])"
    "currentTransferCompletedSemaphore s2 = currentTransferCompletedSemaphore s1"
    "dynamicDataMap s2 = dynamicDataMap s1"
    and c: "if index s1 0 < length (frames s1) \<and> dynamicDataMap s1 \<noteq> []
          then copyRegions (frames s2 ! index s1 0) =
                 replicate (dynamicDataTotalRegions s1) zero_region
             \<and> (\<exists>cb. transferCommandBuffer (frames s2 ! index s1 0) = Some cb \<and> recorded cb = [])
          else s2 = s1"
    by blast
  from th st obtain s3 where
    s3: "transferDynamicData example_env s1' = Some (VK_SUCCESS, s3, [])"
    "currentTransferCompletedSemaphore s3 = None"
    by blast
  from c have "copyRegions (frames s2 ! 0) = [zero_region, zero_region, zero_region]"
    by (simp add: i1 e(3) numeral_3_eq_3)
  with t1 s2 e(2,3) st s3 show ?thesis
    by (intro exI [of _ r1] exI [of _ s1] exI [of _ evs1] exI [of _ s2]
          exI [of _ r] exI [of _ s1'] exI [of _ evs'] exI [of _ s3]) simp
qed

theorem transfer_failure_propagates_witness:
  "\<exists>s1 s2 evs2.
      transferDynamicData example_env_map_fails example_registered =
        Some (- 4, s1, [MapMemory 40 (- 4)])
    \<and> currentTransferCompletedSemaphore s1 = None
    \<and> transferDynamicData example_env_submit_fails example_registered = Some (- 4, s2, evs2)
    \<and> currentTransferCompletedSemaphore s2 = None
    \<and> filter is_QueueSubmit evs2 =
        [QueueSubmit 8
           \<lparr>pWaitSemaphores = [], pWaitDstStageMask = [],
            pCommandBuffers = [50], pSignalSemaphores = [60]\<rparr>
           None (- 4)]"
proof -
  from example_defined [of example_env_map_fails] obtain r1 s1 evs1 where
    t1: "transferDynamicData example_env_map_fails example_registered = Some (r1, s1, evs1)"
    by (metis prod_cases3)
  have i: "index example_registered 0 < length (frames example_registered)"
    "dynamicDataMap example_registered \<noteq> []"
    by (simp_all add: example_fields example_registry)
  have f: "map_result example_env_map_fails \<noteq> VK_SUCCESS" by simp
  have evs1: "evs1 = [MapMemory 40 (- 4)]"
    using transferDynamicData_map_failure(2) [OF t1 i example_needs_staging f]
    by (simp add: example_registry)
  from transfer_failure_propagates [OF t1, of 40 "- 4"]
  have a: "r1 = - 4" "currentTransferCompletedSemaphore s1 = None"
    by (simp_all add: evs1 example_fields)
  from example_defined [of example_env_submit_fails] obtain r2 s2 evs2 where
    t2: "transferDynamicData example_env_submit_fails example_registered = Some (r2, s2, evs2)"
    by (metis prod_cases3)
  note e = example_walk [OF _ t2, simplified]
  let ?q = "QueueSubmit 8
           \<lparr>pWaitSemaphores = [], pWaitDstStageMask = [],
            pCommandBuffers = [50], pSignalSemaphores = [60]\<rparr>
           None (- 4)"
  have "?q \<in> set evs2 \<and> (- 4 :: int) \<noteq> VK_SUCCESS" by (simp add: e(2))
  with transfer_failure_propagates [OF t2, of _ _ 8
      "\<lparr>pWaitSemaphores = [], pWaitDstStageMask = [],
            pCommandBuffers = [50], pSignalSemaphores = [60]\<rparr>" None "- 4"]
  have b: "r2 = - 4" "currentTransferCompletedSemaphore s2 = None"
    "filter is_QueueSubmit evs2 = [?q]"
    by (simp_all add: example_fields)
  show ?thesis
    using t1 evs1 a t2 b by simp
qed

lemma example_walk_defined: "walk_defined example_registered"
  by (simp add: walk_defined_def example_fields example_staged example_registry
        example_needs_staging)

lemma example_map_failure:
  "\<not> reaches_walk example_env_map_fails example_registered"
  "\<exists>s1. transferDynamicData example_env_map_fails example_registered =
          Some (- 4, s1, [MapMemory 40 (- 4)])
      \<and> dynamicDataMap s1 = dynamicDataMap example_registered"
proof -
  show "\<not> reaches_walk example_env_map_fails example_registered"
    by (simp add: reaches_walk_def example_needs_staging)
  from example_defined [of example_env_map_fails] obtain r1 s1 evs1 where
    t1: "transferDynamicData example_env_map_fails example_registered = Some (r1, s1, evs1)"
    by (metis prod_cases3)
  have i: "index example_registered 0 < length (frames example_registered)"
    "dynamicDataMap example_registered \<noteq> []"
    by (simp_all add: example_fields example_registry)
  have f: "map_result example_env_map_fails \<noteq> VK_SUCCESS" by simp
  note m = transferDynamicData_map_failure [OF t1 i example_needs_staging f]
  from m(3) have "dynamicDataMap s1 = dynamicDataMap example_registered" by auto
  with t1 m(1,2) show "\<exists>s1. transferDynamicData example_env_map_fails example_registered =
          Some (- 4, s1, [MapMemory 40 (- 4)])
      \<and> dynamicDataMap s1 = dynamicDataMap example_registered"
    by (simp add: example_registry)
qed

theorem transfer_prunes_unowned_witness:
  "\<exists>r s' evs s1.
      walk_defined example_registered
    \<and> reaches_walk example_env example_registered
    \<and> transferDynamicData example_env example_registered = Some (r, s', evs)
    \<and> dynamicDataMap example_registered =
        [(5, [(0, example_info_a), (16, example_info_b)]), (6, [(0, example_info_c)])]
    \<and> referenceCount example_info_c = 1
    \<and> dynamicDataMap s' =
        [(5, [(0, mark_copied example_info_a), (16, mark_copied example_info_b)])]
    \<and> filter is_Memcpy evs = [Memcpy (Some 4096) 0 100 10, Memcpy (Some 4096) 12 200 20]
    \<and> copyRegions (frames s' ! 0) =
        [\<lparr>srcOffset = 0, dstOffset = 0, copySize = 10\<rparr>,
         \<lparr>srcOffset = 12, dstOffset = 16, copySize = 20\<rparr>, zero_region]
    \<and> \<not> reaches_walk example_env_map_fails example_registered
    \<and> transferDynamicData example_env_map_fails example_registered =
        Some (- 4, s1, [MapMemory 40 (- 4)])
    \<and> dynamicDataMap s1 =
        [(5, [(0, example_info_a), (16, example_info_b)]), (6, [(0, example_info_c)])]"
proof -
  note th = transfer_prunes_unowned [of example_registered example_env]
  from th example_walk_defined obtain r s' evs where
    t: "transferDynamicData example_env example_registered = Some (r, s', evs)"
    by (metis not_Some_eq prod_cases3)
  note e = example_walk [OF _ t, simplified]
  from th t example_reaches_walk
  have "dynamicDataMap s' = pruned_registry (dynamicDataMap example_registered)"
    "filter is_Memcpy evs =
        map (copy_call (buffer_data (frames s' ! index example_registered 0)))
          (staged_registry (dynamicDataMap example_registered) 0)"
    "copyRegions (frames s' ! index example_registered 0) =
        map copy_region (staged_registry (dynamicDataMap example_registered) 0)
        @ replicate (dynamicDataTotalRegions example_registered
             - length (staged_registry (dynamicDataMap example_registered) 0)) zero_region"
    by simp_all
  then have "dynamicDataMap s' =
        [(5, [(0, mark_copied example_info_a), (16, mark_copied example_info_b)])]"
    "filter is_Memcpy evs =
        map (copy_call (buffer_data (frames s' ! 0))) [(0, example_info_a), (12, example_info_b)]"
    "copyRegions (frames s' ! 0) =
        map copy_region [(0, example_info_a), (12, example_info_b)]
        @ replicate (3 - length [(0 :: VkDeviceSize, example_info_a), (12, example_info_b)]) zero_region"
    unfolding example_pruned example_staged example_fields example_registry(3) by simp_all
  then have a: "dynamicDataMap s' =
        [(5, [(0, mark_copied example_info_a), (16, mark_copied example_info_b)])]"
    "filter is_Memcpy evs = [Memcpy (Some 4096) 0 100 10, Memcpy (Some 4096) 12 200 20]"
    "copyRegions (frames s' ! 0) =
        [\<lparr>srcOffset = 0, dstOffset = 0, copySize = 10\<rparr>,
         \<lparr>srcOffset = 12, dstOffset = 16, copySize = 20\<rparr>, zero_region]"
    by (simp_all add: e(6) copy_call_def copy_region_def)
  from example_map_failure(2) obtain s1 where
    t1: "transferDynamicData example_env_map_fails example_registered =
          Some (- 4, s1, [MapMemory 40 (- 4)])"
    by blast
  from transfer_prunes_unowned [of example_registered example_env_map_fails] t1
    example_map_failure(1)
  have b: "dynamicDataMap s1 = dynamicDataMap example_registered" by simp
  from t a t1 b example_reaches_walk example_walk_defined example_map_failure(1)
  show ?thesis
    by (intro exI [of _ r] exI [of _ s'] exI [of _ evs] exI [of _ s1])
      (simp add: example_registry)
qed

text \<open>
  Claim C6 as stated fails: on the example registry, whose entry on buffer 6 has reference
  count one, a transfer whose mapping of the staging memory fails returns the code of the
  mapping, and the entry is still registered after it.
\<close>

theorem failed_mapping_keeps_unowned:
  "referenceCount example_info_c = 1
   \<and> dynamicDataMap example_registered =
       [(5, [(0, example_info_a), (16, example_info_b)]), (6, [(0, example_info_c)])]
   \<and> transferDynamicData example_env_map_fails example_registered \<noteq> None
   \<and> fst (the (transferDynamicData example_env_map_fails example_registered)) = - 4
   \<and> dynamicDataMap
        (fst (snd (the (transferDynamicData example_env_map_fails example_registered)))) =
       [(5, [(0, example_info_a), (16, example_info_b)]), (6, [(0, example_info_c)])]"
proof -
  from example_map_failure(2) obtain s1 where
    "transferDynamicData example_env_map_fails example_registered =
          Some (- 4, s1, [MapMemory 40 (- 4)])"
    "dynamicDataMap s1 = dynamicDataMap example_registered"
    by blast
  then show ?thesis by (simp add: example_registry)
qed

lemma example_task_fields:
  "dynamicDataMap example_task = []" "index example_task 0 = 0"
  "frames example_task = [new_Frame, new_Frame]" "transferQueue example_task = Some 8"
  "indices example_task = [0, 2]"
  by (simp_all add: example_task_def RecordAndSubmitTask_create_def index_def numeral_2_eq_2)

lemma example_pair:
  assumes "buffer e1 = buffer e2" and "range_size e1 = 10" and "range_size e2 = 20"
    and "offset e1 \<noteq> offset e2"
    and "l = [e1, e2] \<or> l = [e2, e1]"
  shows "reaches_walk example_env (assignDynamicBufferInfos l example_task)"
    and "needs_staging (assignDynamicBufferInfos l example_task)"
    and "transferDynamicData example_env (assignDynamicBufferInfos l example_task) =
           Some (r, s', evs) \<Longrightarrow> buffer_data (frames s' ! 0) = Some 4096"
proof -
  let ?a = "assignDynamicBufferInfos l example_task"
  note reg = two_entries_registered(1) [OF example_task_fields(1) assms]
  show w: "reaches_walk example_env ?a"
    by (simp add: reaches_walk_def reg example_task_fields)
  show ns: "needs_staging ?a"
    by (simp add: needs_staging_def example_task_fields new_Frame_def)
  show "buffer_data (frames s' ! 0) = Some 4096"
    if t: "transferDynamicData example_env ?a = Some (r, s', evs)"
    using walk_result(14) [OF t w] ns by (simp add: example_task_fields)
qed

theorem alignment_scenario_witness:
  "dynamicDataMap example_task = []
   \<and> buffer example_info_a = buffer example_info_b
   \<and> range_size example_info_a = 10 \<and> range_size example_info_b = 20
   \<and> offset example_info_a \<noteq> offset example_info_b
   \<and> dynamicDataTotalSize
        (assignDynamicBufferInfos [example_info_a, example_info_b] example_task) = 32
   \<and> dynamicDataTotalRegions
        (assignDynamicBufferInfos [example_info_a, example_info_b] example_task) = 2
   \<and> (\<exists>r s' evs.
         transferDynamicData example_env
           (assignDynamicBufferInfos [example_info_a, example_info_b] example_task) =
           Some (r, s', evs)
       \<and> copyRegions (frames s' ! 0) =
           [\<lparr>srcOffset = 0, dstOffset = 0, copySize = 10\<rparr>,
            \<lparr>srcOffset = 12, dstOffset = 16, copySize = 20\<rparr>]
       \<and> filter is_Memcpy evs =
           [Memcpy (Some 4096) 0 100 10, Memcpy (Some 4096) 12 200 20])
   \<and> buffer example_info_d = buffer example_info_b
   \<and> range_size example_info_d = 10
   \<and> offset example_info_d \<noteq> offset example_info_b
   \<and> dynamicDataTotalSize
        (assignDynamicBufferInfos [example_info_d, example_info_b] example_task) = 32
   \<and> (\<exists>r s' evs.
         transferDynamicData example_env
           (assignDynamicBufferInfos [example_info_d, example_info_b] example_task) =
           Some (r, s', evs)
       \<and> copyRegions (frames s' ! 0) =
           [\<lparr>srcOffset = 0, dstOffset = 16, copySize = 20\<rparr>,
            \<lparr>srcOffset = 20, dstOffset = 64, copySize = 10\<rparr>]
       \<and> filter is_Memcpy evs =
           [Memcpy (Some 4096) 0 200 20, Memcpy (Some 4096) 20 400 10])"
proof -
  let ?a = "assignDynamicBufferInfos [example_info_a, example_info_b] example_task"
  let ?d = "assignDynamicBufferInfos [example_info_d, example_info_b] example_task"
  have h: "dynamicDataMap example_task = []" "buffer example_info_a = buffer example_info_b"
    "range_size example_info_a = 10" "range_size example_info_b = 20"
    "offset example_info_a \<noteq> offset example_info_b"
    "[example_info_a, example_info_b] = [example_info_a, example_info_b]
       \<or> [example_info_a, example_info_b] = [example_info_b, example_info_a]"
    by (simp_all add: example_task_fields)
  have g: "dynamicDataMap example_task = []" "buffer example_info_d = buffer example_info_b"
    "range_size example_info_d = 10" "range_size example_info_b = 20"
    "offset example_info_d \<noteq> offset example_info_b"
    "[example_info_d, example_info_b] = [example_info_d, example_info_b]
       \<or> [example_info_d, example_info_b] = [example_info_b, example_info_d]"
    by (simp_all add: example_task_fields)
  note a = alignment_scenario [OF h]
  note d = alignment_scenario [OF g]
  note pa = example_pair [OF h(2-6)]
  note pd = example_pair [OF g(2-6)]
  from a have ts: "dynamicDataTotalSize ?a = 32" and tr: "dynamicDataTotalRegions ?a = 2"
    by simp_all
  from d have td: "dynamicDataTotalSize ?d = 32" by simp
  from a pa(1,2) obtain r s' evs where
    t: "transferDynamicData example_env ?a = Some (r, s', evs)"
    and c: "copyRegions (frames s' ! index example_task 0) =
           [\<lparr>srcOffset = 0, dstOffset = 0, copySize = 10\<rparr>,
            \<lparr>srcOffset = 12, dstOffset = 16, copySize = 20\<rparr>]"
    and m: "filter is_Memcpy evs =
           [Memcpy (buffer_data (frames s' ! index example_task 0)) 0 100 10,
            Memcpy (buffer_data (frames s' ! index example_task 0)) 12 200 20]"
    by (auto simp: example_task_fields)
  from d pd(1,2) obtain r2 s2 evs2 where
    t2: "transferDynamicData example_env ?d = Some (r2, s2, evs2)"
    and c2: "copyRegions (frames s2 ! index example_task 0) =
           [\<lparr>srcOffset = 0, dstOffset = 16, copySize = 20\<rparr>,
            \<lparr>srcOffset = 20, dstOffset = 64, copySize = 10\<rparr>]"
    and m2: "filter is_Memcpy evs2 =
           [Memcpy (buffer_data (frames s2 ! index example_task 0)) 0 200 20,
            Memcpy (buffer_data (frames s2 ! index example_task 0)) 20 400 10]"
    by (auto simp: example_task_fields)
  have "\<exists>r s' evs. transferDynamicData example_env ?a = Some (r, s', evs)
       \<and> copyRegions (frames s' ! 0) =
           [\<lparr>srcOffset = 0, dstOffset = 0, copySize = 10\<rparr>,
            \<lparr>srcOffset = 12, dstOffset = 16, copySize = 20\<rparr>]
       \<and> filter is_Memcpy evs =
           [Memcpy (Some 4096) 0 100 10, Memcpy (Some 4096) 12 200 20]"
    using t c m pa(3) [OF t] by (simp add: example_task_fields)
  moreover have "\<exists>r s' evs. transferDynamicData example_env ?d = Some (r, s', evs)
       \<and> copyRegions (frames s' ! 0) =
           [\<lparr>srcOffset = 0, dstOffset = 16, copySize = 20\<rparr>,
            \<lparr>srcOffset = 20, dstOffset = 64, copySize = 10\<rparr>]
       \<and> filter is_Memcpy evs =
           [Memcpy (Some 4096) 0 200 20, Memcpy (Some 4096) 20 400 10]"
    using t2 c2 m2 pd(3) [OF t2] by (simp add: example_task_fields)
  ultimately show ?thesis
    using h(1-5) g(2,3,5) ts tr td by blast
qed

text \<open>
  Claim C9 as stated fails: with the 10-byte entry at destination offset 64 and the 20-byte
  entry at destination offset 16 of the same buffer, the transfer copies the 20-byte entry
  to staging offset 0 and the 10-byte entry to staging offset 20.
\<close>

theorem alignment_follows_destination_offsets:
  "buffer example_info_d = buffer example_info_b
   \<and> range_size example_info_d = 10 \<and> range_size example_info_b = 20
   \<and> dynamicDataMap example_task = []
   \<and> transferDynamicData example_env
        (assignDynamicBufferInfos [example_info_d, example_info_b] example_task) \<noteq> None
   \<and> filter is_Memcpy (snd (snd (the (transferDynamicData example_env
        (assignDynamicBufferInfos [example_info_d, example_info_b] example_task))))) =
       [Memcpy (Some 4096) 0 200 20, Memcpy (Some 4096) 20 400 10]"
proof -
  let ?d = "assignDynamicBufferInfos [example_info_d, example_info_b] example_task"
  have g: "dynamicDataMap example_task = []" "buffer example_info_d = buffer example_info_b"
    "range_size example_info_d = 10" "range_size example_info_b = 20"
    "offset example_info_d \<noteq> offset example_info_b"
    "[example_info_d, example_info_b] = [example_info_d, example_info_b]
       \<or> [example_info_d, example_info_b] = [example_info_b, example_info_d]"
    by (simp_all add: example_task_fields)
  note pd = example_pair [OF g(2-6)]
  have o: "referenceCount example_info_d \<noteq> 1" "referenceCount example_info_b \<noteq> 1"
    "modifiedCount (data example_info_d) \<noteq> copiedModifiedCount example_info_d"
    "modifiedCount (data example_info_b) \<noteq> copiedModifiedCount example_info_b"
    by simp_all
  have q: "transferQueue example_task \<noteq> None" by (simp add: example_task_fields)
  from two_entries_transferred [OF g o pd(1) q disjI1 [OF pd(2)]]
  obtain r2 s2 evs2 where
    t2: "transferDynamicData example_env ?d = Some (r2, s2, evs2)"
    and m2: "filter is_Memcpy evs2 =
           [Memcpy (buffer_data (frames s2 ! index example_task 0)) 0 200 20,
            Memcpy (buffer_data (frames s2 ! index example_task 0)) 20 400 10]"
    by auto
  from t2 m2 pd(3) [OF t2] g(1-4) show ?thesis
    by (simp add: example_task_fields)
qed

theorem staging_capacity_never_decreases_witness:
  "\<exists>s1 r s2 evs.
      calls [Assign [example_info_a], Transfer example_env] example_task = Some s1
    \<and> transferDynamicData example_env (assignDynamicBufferInfos [example_info_b] s1) =
        Some (r, s2, evs)
    \<and> calls [] s2 = Some s2
    \<and> index example_task 0 < length (frames example_task)
    \<and> staging_capacity (frames example_task ! 0) = 0
    \<and> staging_capacity (frames s1 ! 0) = 12
    \<and> dynamicDataTotalSize (assignDynamicBufferInfos [example_info_b] s1) = 32
    \<and> 32 \<le> staging_capacity (frames s2 ! 0)"
proof -
  let ?a1 = "assignDynamicBufferInfos [example_info_a] example_task"
  have n12: "next_offset 4 10 = 12" by (rule next_offset_10)
  have reg1: "dynamicDataMap ?a1 = [(5, [(0, example_info_a)])]"
    and ts1: "dynamicDataTotalSize ?a1 = 12" and tr1: "dynamicDataTotalRegions ?a1 = 1"
    by (simp_all add: assignDynamicBufferInfos_def example_task_fields n12)
  have st1: "staged_registry (dynamicDataMap ?a1) 0 = [(0, example_info_a)]"
    unfolding reg1 by simp
  have ns1: "needs_staging ?a1"
    by (simp add: needs_staging_def example_task_fields new_Frame_def)
  have "\<exists>x. transferDynamicData example_env ?a1 = Some x"
    by (rule transferDynamicData_defined)
      (simp add: walk_defined_def st1 tr1 ns1 example_task_fields)
  then obtain r1 s1 evs1 where t1: "transferDynamicData example_env ?a1 = Some (r1, s1, evs1)"
    by (metis prod_cases3)
  have c1: "calls [Assign [example_info_a], Transfer example_env] example_task = Some s1"
    by (simp add: t1)
  have w1: "reaches_walk example_env ?a1"
    by (simp add: reaches_walk_def reg1 example_task_fields)
  note r1 = walk_result [OF t1 w1]
  have reg_s1: "dynamicDataMap s1 = [(5, [(0, mark_copied example_info_a)])]"
    unfolding r1(1) reg1 by (simp add: live_entries_def)
  have q1: "transferQueue s1 = Some 8" using r1(8) by (simp add: example_task_fields)
  have cap1: "staging_capacity (frames s1 ! 0) = 12"
    using r1(10) ns1 by (auto simp: staging_capacity_def example_task_fields ts1)
  let ?a2 = "assignDynamicBufferInfos [example_info_b] s1"
  have n32: "next_offset 4 32 = 32" by (rule next_offset_10)
  have reg2: "dynamicDataMap ?a2 = [(5, [(0, mark_copied example_info_a), (16, example_info_b)])]"
    and ts2: "dynamicDataTotalSize ?a2 = 32" and tr2: "dynamicDataTotalRegions ?a2 = 2"
    by (simp_all add: assignDynamicBufferInfos_def reg_s1 n12 n32)
  have st2: "staged_registry (dynamicDataMap ?a2) 0 = [(0, example_info_b)]"
    unfolding reg2 by simp
  have ix1: "index s1 0 = 0" using r1(4) by (simp add: index_def example_task_fields)
  have bd1: "buffer_data (frames s1 ! 0) = Some 4096"
    using r1(14) ns1 by (simp add: example_task_fields)
  have "\<exists>x. transferDynamicData example_env ?a2 = Some x"
    by (rule transferDynamicData_defined)
      (simp add: walk_defined_def st2 tr2 q1 ix1 bd1)
  then obtain r s2 evs where t2: "transferDynamicData example_env ?a2 = Some (r, s2, evs)"
    by (metis prod_cases3)
  have c2: "calls [] s2 = Some s2" by simp
  have i: "index example_task 0 < length (frames example_task)"
    by (simp add: example_task_fields)
  from staging_capacity_never_decreases [OF c1 t2 c2 i]
  have "dynamicDataTotalSize ?a2 \<le> staging_capacity (frames s2 ! index example_task 0)"
    by blast
  then have "32 \<le> staging_capacity (frames s2 ! 0)"
    by (simp add: ts2 example_task_fields)
  moreover have "staging_capacity (frames example_task ! 0) = 0"
    by (simp add: staging_capacity_def example_task_fields new_Frame_def)
  ultimately show ?thesis
    using c1 t2 c2 i cap1 ts2 by blast
qed

section \<open>The paged-data loader of the tasks\<close>

lemma databasePager_assign [simp]:
  "databasePager (assignDynamicBufferInfos l s) = databasePager s"
  by (simp add: assignDynamicBufferInfos_def Let_def split: prod.splits)

lemma databasePager_raise [simp]: "databasePager (raise_maxSlot n s) = databasePager s"
  by (simp add: raise_maxSlot_def)

lemma find_databasePager_Some [simp]: "find_databasePager ts (Some p) = Some p"
  by (induction ts) auto

lemma find_databasePager_None:
  "find_databasePager ts None = None \<longleftrightarrow> (\<forall>t \<in> set ts. databasePager t = None)"
  by (induction ts) auto

lemma compileManager_again:
  "store[p := (store[p := (store ! p)\<lparr>compileManager := m\<rparr>] ! p)\<lparr>compileManager := m\<rparr>] =
   store[p := (store ! p)\<lparr>compileManager := m\<rparr>]"
  by (cases "p < length store") (simp_all add: list_update_beyond)

lemma assign_databasePager_all:
  assumes "\<forall>t \<in> set ts. databasePager t = None"
  shows "assign_databasePager p m ts store =
     (map (\<lambda>t. t\<lparr>databasePager := Some p\<rparr>) ts,
      if ts = [] then store else store[p := (store ! p)\<lparr>compileManager := m\<rparr>])"
  using assms
proof (induction ts arbitrary: store)
  case Nil
  show ?case by simp
next
  case (Cons t ts)
  then show ?case by (cases "ts = []") (auto simp: compileManager_again)
qed

lemma assign_pager_if_required_some:
  assumes "\<exists>t \<in> set ts. databasePager t \<noteq> None"
  shows "assign_pager_if_required m ts store = (ts, store)"
proof -
  from assms have "find_databasePager ts None \<noteq> None"
    by (simp add: find_databasePager_None)
  then show ?thesis by (auto simp: assign_pager_if_required_def)
qed

lemma assign_pager_if_required_none:
  assumes "\<forall>t \<in> set ts. databasePager t = None"
  shows "assign_pager_if_required m ts store =
     (map (\<lambda>t. t\<lparr>databasePager := Some (length store)\<rparr>) ts,
      store @ [\<lparr>compileManager = (if ts = [] then None else m), started = True\<rparr>])"
proof -
  from assms have "find_databasePager ts None = None"
    by (simp add: find_databasePager_None)
  then show ?thesis
    by (simp add: assign_pager_if_required_def Let_def assign_databasePager_all [OF assms])
qed

text \<open>
  Claim C5, as amended. When the compile result contains paged content, \<^verbatim>\<open>updateTasks\<close> keeps
  the pager of every task that has one. If some task has a pager, no pager is created or
  started. If no task has a pager, exactly one new pager is created, assigned to every task,
  given the compile manager through the tasks (so only if there is a task) and started;
  every task then has that one pager.
\<close>

theorem updateTasks_databasePager:
  assumes "containsPagedLOD compileResult"
  shows "length (tasks (updateTasks v manager compileResult)) = length (tasks v)
     \<and> (\<forall>i < length (tasks v). databasePager (tasks v ! i) \<noteq> None \<longrightarrow>
           databasePager (tasks (updateTasks v manager compileResult) ! i) =
           databasePager (tasks v ! i))
     \<and> ((\<exists>t \<in> set (tasks v). databasePager t \<noteq> None) \<longrightarrow>
           pagers (updateTasks v manager compileResult) = pagers v)
     \<and> ((\<forall>t \<in> set (tasks v). databasePager t = None) \<longrightarrow>
           pagers (updateTasks v manager compileResult) =
             pagers v @ [\<lparr>compileManager = (if tasks v = [] then None else manager),
                          started = True\<rparr>]
         \<and> (\<forall>t \<in> set (tasks (updateTasks v manager compileResult)).
               databasePager t = Some (length (pagers v))))"
proof -
  define raised where "raised = map (raise_maxSlot (compiled_maxSlot compileResult))
     (if dynamicBufferInfos compileResult \<noteq> []
      then map (assignDynamicBufferInfos (dynamicBufferInfos compileResult)) (tasks v)
      else tasks v)"
  have len: "length raised = length (tasks v)" by (simp add: raised_def)
  have dp: "map databasePager raised = map databasePager (tasks v)"
    by (simp add: raised_def)
  have nth: "databasePager (raised ! i) = databasePager (tasks v ! i)" if "i < length (tasks v)" for i
    using that by (simp add: raised_def)
  have all: "(\<forall>t \<in> set raised. databasePager t = None) \<longleftrightarrow>
             (\<forall>t \<in> set (tasks v). databasePager t = None)"
    by (auto simp: raised_def)
  have u: "tasks (updateTasks v manager compileResult) =
             fst (assign_pager_if_required manager raised (pagers v))"
    "pagers (updateTasks v manager compileResult) =
             snd (assign_pager_if_required manager raised (pagers v))"
    using assms by (simp_all add: updateTasks_def raised_def Let_def split: prod.splits)
  show ?thesis
  proof (cases "\<forall>t \<in> set (tasks v). databasePager t = None")
    case True
    then have r: "\<forall>t \<in> set raised. databasePager t = None" by (simp add: all)
    have e: "raised = [] \<longleftrightarrow> tasks v = []" using len by auto
    show ?thesis
      using True by (auto simp: u assign_pager_if_required_none [OF r] len e)
  next
    case False
    then have r: "\<exists>t \<in> set raised. databasePager t \<noteq> None" using all by blast
    show ?thesis
      using False by (auto simp: u assign_pager_if_required_some [OF r] len nth)
  qed
qed

text \<open>
  Claim C5 as stated fails: of three tasks, the first and the third with different pagers
  and the second with none, the second still has no pager after \<^verbatim>\<open>updateTasks\<close> on a compile
  result with paged content, and the other two do not share one.
\<close>

theorem updateTasks_leaves_task_without_pager:
  "containsPagedLOD example_compileResult
   \<and> map databasePager (tasks example_viewer) = [Some 0, None, Some 1]
   \<and> map databasePager (tasks (updateTasks example_viewer (Some 9) example_compileResult)) =
       [Some 0, None, Some 1]
   \<and> pagers (updateTasks example_viewer (Some 9) example_compileResult) = pagers example_viewer"
  by (simp add: updateTasks_def example_viewer_def example_compileResult_def
        assign_pager_if_required_def example_task_def RecordAndSubmitTask_create_def)

theorem updateTasks_databasePager_witness:
  "containsPagedLOD example_compileResult
   \<and> map databasePager (tasks example_viewer_unpaged) = [None, None]
   \<and> map databasePager
         (tasks (updateTasks example_viewer_unpaged (Some 9) example_compileResult)) =
       [Some 0, Some 0]
   \<and> pagers (updateTasks example_viewer_unpaged (Some 9) example_compileResult) =
       [\<lparr>compileManager = Some 9, started = True\<rparr>]
   \<and> databasePager (tasks (updateTasks example_viewer (Some 9) example_compileResult) ! 0) =
       Some 0
   \<and> pagers (updateTasks example_viewer (Some 9) example_compileResult) =
       pagers example_viewer"
proof -
  have c: "containsPagedLOD example_compileResult" by (simp add: example_compileResult_def)
  have dp: "databasePager example_task = None"
    by (simp add: example_task_def RecordAndSubmitTask_create_def)
  let ?u = "updateTasks example_viewer_unpaged (Some 9) example_compileResult"
  have n: "\<forall>t \<in> set (tasks example_viewer_unpaged). databasePager t = None"
    "tasks example_viewer_unpaged \<noteq> []" "pagers example_viewer_unpaged = []"
    "length (tasks example_viewer_unpaged) = 2"
    by (simp_all add: example_viewer_unpaged_def dp)
  from updateTasks_databasePager [OF c, of example_viewer_unpaged "Some 9"] n
  have l: "length (tasks ?u) = 2"
    and p: "pagers ?u = [\<lparr>compileManager = Some 9, started = True\<rparr>]"
    and a: "\<forall>t \<in> set (tasks ?u). databasePager t = Some 0"
    by simp_all
  from l obtain x y where xy: "tasks ?u = [x, y]"
    by (auto simp: length_Suc_conv numeral_2_eq_2)
  with a have m: "map databasePager (tasks ?u) = [Some 0, Some 0]" by simp
  let ?v = "updateTasks example_viewer (Some 9) example_compileResult"
  have e: "databasePager (tasks example_viewer ! 0) = Some 0"
    "\<exists>t \<in> set (tasks example_viewer). databasePager t \<noteq> None"
    "0 < length (tasks example_viewer)"
    by (simp_all add: example_viewer_def)
  from updateTasks_databasePager [OF c, of example_viewer "Some 9"] e
  have k: "databasePager (tasks ?v ! 0) = Some 0" "pagers ?v = pagers example_viewer"
    by auto
  show ?thesis
    using c m p k by (simp add: example_viewer_unpaged_def dp)
qed

end
